theory Spec2Isabelle
  imports Complex_Main "HOL-Library.AList" "HOL-Library.Sublist"
begin

section \<open>Python strings\<close>

text \<open>
  A Python \<open>str\<close> is modelled as a \<^typ>\<open>string\<close> whose characters are the code points
  0..255 (Latin-1). On that range \<open>str.isspace\<close>, \<open>str.strip\<close> and \<open>str.lower\<close> are written
  out exactly as CPython computes them; prompts with code points above 255 are outside
  the model.
\<close>

definition py_isspace :: "char \<Rightarrow> bool" where
  "py_isspace c =
     (let n = (of_char c :: nat)
      in (9 \<le> n \<and> n \<le> 13) \<or> (28 \<le> n \<and> n \<le> 32) \<or> n = 133 \<or> n = 160)"

definition strip :: "string \<Rightarrow> string" where
  "strip s = rev (dropWhile py_isspace (rev (dropWhile py_isspace s)))"

definition py_lower_char :: "char \<Rightarrow> char" where
  "py_lower_char c =
     (let n = (of_char c :: nat)
      in if (65 \<le> n \<and> n \<le> 90) \<or> (192 \<le> n \<and> n \<le> 222 \<and> n \<noteq> 215)
         then char_of (n + 32) else c)"

definition lower :: "string \<Rightarrow> string" where
  "lower s = map py_lower_char s"

text \<open>\<open>word in s\<close> on strings: \<open>word\<close> occurs as a contiguous substring.\<close>

fun py_in :: "string \<Rightarrow> string \<Rightarrow> bool" where
  "py_in word [] = (word = [])"
| "py_in word (c # cs) = (prefix word (c # cs) \<or> py_in word cs)"

text \<open>\<open>any(word in s for word in words)\<close>\<close>

definition any_in :: "string list \<Rightarrow> string \<Rightarrow> bool" where
  "any_in words s = list_ex (\<lambda>word. py_in word s) words"

section \<open>The mock adapter's keyword rule\<close>

text \<open>
  The keyword lists and URLs of \<open>generate_enhanced_mock_video\<close>, in the order of its
  \<open>if\<close>/\<open>elif\<close> chain.
\<close>

definition cat_url :: string where
  "cat_url = ''https://sample-videos.com/zip/10/mp4/480/SampleVideo_480x270_1mb.mp4''"

definition ocean_url :: string where
  "ocean_url = ''https://www.learningcontainer.com/wp-content/uploads/2020/05/sample-mp4-file.mp4''"

definition nature_url :: string where
  "nature_url = ''https://commondatastorage.googleapis.com/gtv-videos-bucket/sample/ForBiggerEscapes.mp4''"

definition city_url :: string where
  "city_url = ''https://commondatastorage.googleapis.com/gtv-videos-bucket/sample/ForBiggerJoyrides.mp4''"

definition default_url :: string where
  "default_url = ''https://commondatastorage.googleapis.com/gtv-videos-bucket/sample/BigBuckBunny.mp4''"

definition cat_words :: "string list" where
  "cat_words = [''cat'', ''kitten'', ''pet'']"

definition ocean_words :: "string list" where
  "ocean_words = [''ocean'', ''wave'', ''water'', ''sea'']"

definition nature_words :: "string list" where
  "nature_words = [''nature'', ''forest'', ''tree'', ''landscape'']"

definition city_words :: "string list" where
  "city_words = [''city'', ''urban'', ''building'', ''street'']"

definition mock_video_url :: "string \<Rightarrow> string" where
  "mock_video_url p =
     (let prompt_lower = lower p
      in if any_in cat_words prompt_lower then cat_url
         else if any_in ocean_words prompt_lower then ocean_url
         else if any_in nature_words prompt_lower then nature_url
         else if any_in city_words prompt_lower then city_url
         else default_url)"

section \<open>JSON values, exceptions, HTTP exchanges\<close>

text \<open>
  What \<open>response.json()\<close> yields. Python's \<open>None\<close> is \<open>JNull\<close>, so a function typed
  \<open>Optional[str]\<close> returns a \<open>json\<close> value here: the adapters hand back whatever the
  provider's payload holds at the place they read.
\<close>

datatype json =
    JNull
  | JBool bool
  | JInt int
  | JFloat real
  | JStr string
  | JList "json list"
  | JDict "(string \<times> json) list"

text \<open>Python truthiness (\<open>if video_url:\<close>, \<open>not video_url\<close>).\<close>

fun truthy :: "json \<Rightarrow> bool" where
  "truthy JNull = False"
| "truthy (JBool b) = b"
| "truthy (JInt i) = (i \<noteq> 0)"
| "truthy (JFloat x) = (x \<noteq> 0)"
| "truthy (JStr s) = (s \<noteq> [])"
| "truthy (JList xs) = (xs \<noteq> [])"
| "truthy (JDict kvs) = (kvs \<noteq> [])"

datatype exn =
    KeyError string
  | AttributeError
  | JSONDecodeError
  | TransportError string
  | ValueError string
  | OtherError string
  | HTTPException int string
  | RequestValidationError
  | ValidationError
  | CancelledError

text \<open>
  \<open>except Exception\<close> catches the instances of \<open>Exception\<close>. \<open>asyncio.CancelledError\<close>, raised
  at an \<open>await\<close> when the task is cancelled, derives from \<open>BaseException\<close> only (Python 3.8
  on) and passes every \<open>except Exception\<close>.
\<close>

fun is_Exception :: "exn \<Rightarrow> bool" where
  "is_Exception CancelledError = False"
| "is_Exception _ = True"

text \<open>\<open>str(e)\<close>, as stored in a failed record's \<open>error\<close> field.\<close>

fun str_exn :: "exn \<Rightarrow> string" where
  "str_exn (KeyError k) = [CHR 0x27] @ k @ [CHR 0x27]"
| "str_exn AttributeError = ''object has no attribute get''"
| "str_exn JSONDecodeError = ''Expecting value''"
| "str_exn (TransportError m) = m"
| "str_exn (ValueError m) = m"
| "str_exn (OtherError m) = m"
| "str_exn (HTTPException c d) = d"
| "str_exn RequestValidationError = ''validation error''"
| "str_exn ValidationError = ''validation error''"
| "str_exn CancelledError = []"

text \<open>
  The status code a client sees when an endpoint raises: FastAPI answers an
  \<open>HTTPException\<close> with its own code, a request body that fails the pydantic model
  with 422 and anything else with 500.
\<close>

fun response_code :: "exn \<Rightarrow> int" where
  "response_code (HTTPException c d) = c"
| "response_code RequestValidationError = 422"
| "response_code _ = 500"

text \<open>\<open>obj.get(key, default)\<close>: only a dict has \<open>get\<close>.\<close>

definition json_get :: "json \<Rightarrow> string \<Rightarrow> json \<Rightarrow> exn + json" where
  "json_get obj key dflt =
     (case obj of
        JDict kvs \<Rightarrow> Inr (case map_of kvs key of None \<Rightarrow> dflt | Some v \<Rightarrow> v)
      | _ \<Rightarrow> Inl AttributeError)"

text \<open>
  An httpx response: its status code, what \<open>.json()\<close> parses (\<open>None\<close> when the body is
  not JSON and \<open>.json()\<close> raises) and its raw bytes. A request either raises (timeout,
  connection error) or returns a response.
\<close>

record response =
  status_code :: int
  json_body :: "json option"
  content :: string

datatype http_outcome = Raises exn | Returns response

definition response_json :: "response \<Rightarrow> exn + json" where
  "response_json r = (case json_body r of None \<Rightarrow> Inl JSONDecodeError | Some j \<Rightarrow> Inr j)"

section \<open>Configuration, requests, records\<close>

record config =
  LUMA_API_KEY :: "string option"
  REPLICATE_API_TOKEN :: "string option"
  HUGGINGFACE_API_KEY :: "string option"
  MAX_PROMPT_LENGTH :: int

text \<open>\<open>if LUMA_API_KEY:\<close> - an unset variable and an empty one are both falsy.\<close>

definition configured :: "string option \<Rightarrow> bool" where
  "configured k = (case k of None \<Rightarrow> False | Some s \<Rightarrow> s \<noteq> [])"

record video_prompt =
  prompt :: string
  duration :: "int option"
  style :: "string option"

text \<open>
  One value of the \<open>generation_status\<close> dict. The keys written at creation are plain
  fields (the dict key \<open>"prompt"\<close> is \<open>prompt_text\<close>); the keys added later are options,
  \<open>None\<close> while the key is absent.
\<close>

record gen_record =
  status :: string
  progress :: int
  created_at :: real
  prompt_text :: string
  video_url :: "json option"
  completed_at :: "real option"
  error :: "string option"

datatype adapter = Luma | Replicate | HuggingFace | Mock

text \<open>
  The process state: the \<open>generation_status\<close> dict in insertion order, and the
  background tasks FastAPI has been handed and not yet run. Two more fields only
  observe: \<open>writes\<close> lists every record value stored, oldest first, and \<open>attempts\<close>
  every adapter the orchestrator has invoked together with what came back.
\<close>

record world =
  generation_status :: "(string \<times> gen_record) list"
  background_tasks :: "(string \<times> video_prompt) list"
  writes :: "(string \<times> gen_record) list"
  attempts :: "(adapter \<times> (exn + json)) list"

text \<open>
  What one run of the background task gets from outside: the outcome of each HTTP
  request it may send (polls numbered from 0); for each \<open>print\<close> call, named by its line
  in \<open>main.py\<close>, the exception it raises, if any (\<open>ValueError\<close> when standard output is
  closed); for each \<open>asyncio.sleep\<close> call, named by its line and, inside a polling loop,
  the number of the iteration, the exception it raises, if any (\<open>CancelledError\<close> when
  the task is cancelled while it sleeps); and the clock value read at completion. No
  \<open>print\<close> call runs twice in one run.
\<close>

record env =
  luma_post :: http_outcome
  luma_get :: "nat \<Rightarrow> http_outcome"
  replicate_post :: http_outcome
  replicate_get :: "nat \<Rightarrow> http_outcome"
  huggingface_post :: http_outcome
  print_raises :: "nat \<Rightarrow> exn option"
  sleep_raises :: "nat \<Rightarrow> nat \<Rightarrow> exn option"
  time_completed :: real

section \<open>Statements\<close>

text \<open>
  A statement runs on the state and either returns a value or raises; the state
  changes made before a raise stay.
\<close>

type_synonym 'a prog = "world \<Rightarrow> (exn + 'a) \<times> world"

definition ret :: "'a \<Rightarrow> 'a prog" where
  "ret v = (\<lambda>w. (Inr v, w))"

definition raise :: "exn \<Rightarrow> 'a prog" where
  "raise e = (\<lambda>w. (Inl e, w))"

definition lift :: "exn + 'a \<Rightarrow> 'a prog" where
  "lift r = (\<lambda>w. (r, w))"

definition then_do :: "'a prog \<Rightarrow> ('a \<Rightarrow> 'b prog) \<Rightarrow> 'b prog" where
  "then_do m f = (\<lambda>w. case m w of (Inl e, w') \<Rightarrow> (Inl e, w') | (Inr v, w') \<Rightarrow> f v w')"

text \<open>
  \<open>try: m  except Exception as e: h e\<close>. What is no \<open>Exception\<close> goes on to the caller.
\<close>

definition try_except :: "'a prog \<Rightarrow> (exn \<Rightarrow> 'a prog) \<Rightarrow> 'a prog" where
  "try_except m h =
     (\<lambda>w. case m w of
        (Inl e, w') \<Rightarrow> if is_Exception e then h e w' else (Inl e, w')
      | (Inr v, w') \<Rightarrow> (Inr v, w'))"

text \<open>
  \<open>for x in xs: body\<close> where the body may \<open>return\<close>: the body yields \<open>Some v\<close> to return
  \<open>v\<close> from the enclosing function and \<open>None\<close> to go on; the loop yields \<open>None\<close> when it
  runs out.
\<close>

fun for_loop :: "'i list \<Rightarrow> ('i \<Rightarrow> 'a option prog) \<Rightarrow> 'a option prog" where
  "for_loop [] body = ret None"
| "for_loop (x # xs) body =
     (\<lambda>w. case body x w of
        (Inl e, w') \<Rightarrow> (Inl e, w')
      | (Inr (Some v), w') \<Rightarrow> (Inr (Some v), w')
      | (Inr None, w') \<Rightarrow> for_loop xs body w')"

text \<open>An awaited HTTP request.\<close>

definition http :: "http_outcome \<Rightarrow> response prog" where
  "http h = (case h of Raises e \<Rightarrow> raise e | Returns r \<Rightarrow> ret r)"

text \<open>The \<open>print\<close> call at a line of \<open>main.py\<close>; what it writes is not modelled.\<close>

definition print :: "env \<Rightarrow> nat \<Rightarrow> unit prog" where
  "print ev line = (case print_raises ev line of Some e \<Rightarrow> raise e | None \<Rightarrow> ret ())"

text \<open>\<open>await asyncio.sleep(...)\<close> at a line of \<open>main.py\<close>, in iteration \<open>i\<close> of its loop.\<close>

definition asyncio_sleep :: "env \<Rightarrow> nat \<Rightarrow> nat \<Rightarrow> unit prog" where
  "asyncio_sleep ev line i = (case sleep_raises ev line i of Some e \<Rightarrow> raise e | None \<Rightarrow> ret ())"

text \<open>\<open>generation_status[gid] = r\<close>\<close>

definition store_record :: "string \<Rightarrow> gen_record \<Rightarrow> unit prog" where
  "store_record gid r =
     (\<lambda>w. (Inr (), w\<lparr>generation_status := AList.update gid r (generation_status w),
                      writes := writes w @ [(gid, r)]\<rparr>))"

text \<open>
  \<open>generation_status[gid].update({...})\<close> and \<open>generation_status[gid][key] = v\<close>: the
  lookup raises \<open>KeyError\<close> when the id is not in the dict.
\<close>

definition update_record :: "string \<Rightarrow> (gen_record \<Rightarrow> gen_record) \<Rightarrow> unit prog" where
  "update_record gid f =
     (\<lambda>w. case map_of (generation_status w) gid of
        None \<Rightarrow> (Inl (KeyError gid), w)
      | Some r \<Rightarrow> store_record gid (f r) w)"

definition set_progress :: "string \<Rightarrow> int \<Rightarrow> unit prog" where
  "set_progress gid v = update_record gid (\<lambda>r. r\<lparr>progress := v\<rparr>)"

text \<open>\<open>del generation_status[gid]\<close>\<close>

definition del_record :: "string \<Rightarrow> unit prog" where
  "del_record gid =
     (\<lambda>w. case map_of (generation_status w) gid of
        None \<Rightarrow> (Inl (KeyError gid), w)
      | Some r \<Rightarrow> (Inr (), w\<lparr>generation_status := AList.delete gid (generation_status w)\<rparr>))"

section \<open>The provider adapters\<close>

text \<open>The body of Luma's polling loop, in iteration \<open>i\<close>.\<close>

definition luma_poll_body :: "env \<Rightarrow> string \<Rightarrow> nat \<Rightarrow> json option prog" where
  "luma_poll_body ev gid i =
     then_do (asyncio_sleep ev 217 i) (\<lambda>_.
     then_do (http (luma_get ev i)) (\<lambda>status_response.
       if status_code status_response = 200 then
         then_do (lift (response_json status_response)) (\<lambda>status_data.
         then_do (lift (json_get status_data ''state'' JNull)) (\<lambda>state.
           if state = JStr ''completed'' then
             then_do (set_progress gid 90) (\<lambda>_.
             then_do (lift (json_get status_data ''assets'' (JDict []))) (\<lambda>assets.
             then_do (lift (json_get assets ''video'' JNull)) (\<lambda>url.
               if truthy url then then_do (print ev 232) (\<lambda>_. ret (Some url))
               else ret None)))
           else if state = JStr ''failed'' then
             then_do (print ev 235) (\<lambda>_. ret (Some JNull))
           else ret None))
       else ret None))"

text \<open>The \<open>try\<close> block of \<open>generate_with_luma_dream_machine\<close>.\<close>

definition luma_try :: "env \<Rightarrow> string \<Rightarrow> json prog" where
  "luma_try ev gid =
     then_do (set_progress gid 25) (\<lambda>_.
     then_do (print ev 198) (\<lambda>_.
     then_do (set_progress gid 50) (\<lambda>_.
     then_do (http (luma_post ev)) (\<lambda>response.
       if status_code response = 201 then
         then_do (lift (response_json response)) (\<lambda>result.
         then_do (lift (json_get result ''id'' JNull)) (\<lambda>generation_id_luma.
         then_do (set_progress gid 75) (\<lambda>_.
         then_do (for_loop [0..<30] (luma_poll_body ev gid)) (\<lambda>returned.
           case returned of Some v \<Rightarrow> ret v | None \<Rightarrow> ret JNull))))
       else then_do (print ev 238) (\<lambda>_. ret JNull)))))"

text \<open>
  The handler of each provider adapter prints and falls through to \<open>return None\<close>; the
  branch for a missing credential prints outside the \<open>try\<close>.
\<close>

definition generate_with_luma_dream_machine :: "config \<Rightarrow> env \<Rightarrow> string \<Rightarrow> json prog" where
  "generate_with_luma_dream_machine cfg ev gid =
     (if \<not> configured (LUMA_API_KEY cfg) then then_do (print ev 179) (\<lambda>_. ret JNull)
      else try_except (luma_try ev gid) (\<lambda>e. then_do (print ev 241) (\<lambda>_. ret JNull)))"

definition replicate_poll_body :: "env \<Rightarrow> string \<Rightarrow> nat \<Rightarrow> json option prog" where
  "replicate_poll_body ev gid i =
     then_do (asyncio_sleep ev 290 i) (\<lambda>_.
     then_do (http (replicate_get ev i)) (\<lambda>status_response.
       if status_code status_response = 200 then
         then_do (lift (response_json status_response)) (\<lambda>status_data.
         then_do (lift (json_get status_data ''status'' JNull)) (\<lambda>state.
           if state = JStr ''succeeded'' then
             then_do (set_progress gid 90) (\<lambda>_.
             then_do (lift (json_get status_data ''output'' JNull)) (\<lambda>output.
               case output of
                 JList (first # rest) \<Rightarrow> then_do (print ev 306) (\<lambda>_. ret (Some first))
               | _ \<Rightarrow> ret None))
           else if state = JStr ''failed'' then
             then_do (print ev 309) (\<lambda>_. ret (Some JNull))
           else ret None))
       else ret None))"

definition replicate_try :: "env \<Rightarrow> string \<Rightarrow> json prog" where
  "replicate_try ev gid =
     then_do (set_progress gid 35) (\<lambda>_.
     then_do (print ev 272) (\<lambda>_.
     then_do (set_progress gid 55) (\<lambda>_.
     then_do (http (replicate_post ev)) (\<lambda>response.
       if status_code response = 201 then
         then_do (lift (response_json response)) (\<lambda>result.
         then_do (lift (json_get result ''id'' JNull)) (\<lambda>prediction_id.
         then_do (set_progress gid 75) (\<lambda>_.
         then_do (for_loop [0..<20] (replicate_poll_body ev gid)) (\<lambda>returned.
           case returned of Some v \<Rightarrow> ret v | None \<Rightarrow> ret JNull))))
       else then_do (print ev 313) (\<lambda>_. ret JNull)))))"

definition generate_with_replicate :: "config \<Rightarrow> env \<Rightarrow> string \<Rightarrow> json prog" where
  "generate_with_replicate cfg ev gid =
     (if \<not> configured (REPLICATE_API_TOKEN cfg) then then_do (print ev 249) (\<lambda>_. ret JNull)
      else try_except (replicate_try ev gid) (\<lambda>e. then_do (print ev 316) (\<lambda>_. ret JNull)))"

definition huggingface_placeholder :: string where
  "huggingface_placeholder = ''https://huggingface.co/generated-video-placeholder.mp4''"

definition huggingface_try :: "env \<Rightarrow> string \<Rightarrow> json prog" where
  "huggingface_try ev gid =
     then_do (set_progress gid 40) (\<lambda>_.
     then_do (print ev 345) (\<lambda>_.
     then_do (set_progress gid 65) (\<lambda>_.
     then_do (http (huggingface_post ev)) (\<lambda>response.
     then_do (set_progress gid 85) (\<lambda>_.
       if status_code response = 200 then
         (let video_bytes = content response
          in if length video_bytes > 1000
             then then_do (print ev 364) (\<lambda>_. ret (JStr huggingface_placeholder))
             else ret JNull)
       else then_do (print ev 367) (\<lambda>_. ret JNull))))))"

definition generate_with_huggingface :: "config \<Rightarrow> env \<Rightarrow> string \<Rightarrow> json prog" where
  "generate_with_huggingface cfg ev gid =
     (if \<not> configured (HUGGINGFACE_API_KEY cfg) then then_do (print ev 324) (\<lambda>_. ret JNull)
      else try_except (huggingface_try ev gid) (\<lambda>e. then_do (print ev 370) (\<lambda>_. ret JNull)))"

text \<open>
  The mock adapter has no \<open>try\<close>: a missing record raises \<open>KeyError\<close> to the caller, and
  so does whatever its two \<open>sleep\<close> and two \<open>print\<close> calls raise.
\<close>

definition generate_enhanced_mock_video :: "env \<Rightarrow> string \<Rightarrow> video_prompt \<Rightarrow> json prog" where
  "generate_enhanced_mock_video ev gid prompt_data =
     then_do (set_progress gid 60) (\<lambda>_.
     then_do (asyncio_sleep ev 378 0) (\<lambda>_.
     then_do (set_progress gid 80) (\<lambda>_.
     then_do (asyncio_sleep ev 381 0) (\<lambda>_.
     then_do (print ev 398) (\<lambda>_.
     then_do (print ev 399) (\<lambda>_.
       ret (JStr (mock_video_url (prompt prompt_data)))))))))"

section \<open>The orchestrator\<close>

text \<open>Invoking an adapter, noted in \<open>attempts\<close> with what it returned or raised.\<close>

definition call :: "adapter \<Rightarrow> json prog \<Rightarrow> json prog" where
  "call a m = (\<lambda>w. case m w of (r, w') \<Rightarrow> (r, w'\<lparr>attempts := attempts w' @ [(a, r)]\<rparr>))"

text \<open>
  The three dicts the orchestrator passes to \<open>generation_status[gid].update(...)\<close>: on
  dispatch, on success (with the URL and the value of \<open>time.time()\<close>) and in the
  exception handler.
\<close>

definition mark_processing :: "gen_record \<Rightarrow> gen_record" where
  "mark_processing r = r\<lparr>status := ''processing'', progress := 10\<rparr>"

definition mark_completed :: "json \<Rightarrow> real \<Rightarrow> gen_record \<Rightarrow> gen_record" where
  "mark_completed url t r =
     r\<lparr>status := ''completed'', progress := 100, video_url := Some url, completed_at := Some t\<rparr>"

definition mark_failed :: "exn \<Rightarrow> gen_record \<Rightarrow> gen_record" where
  "mark_failed e r = r\<lparr>status := ''failed'', progress := 0, error := Some (str_exn e)\<rparr>"

text \<open>
  The \<open>try\<close> block of \<open>process_video_generation\<close>, and the function with its handler.
\<close>

definition process_try :: "config \<Rightarrow> env \<Rightarrow> string \<Rightarrow> video_prompt \<Rightarrow> unit prog" where
  "process_try cfg ev gid prompt_data =
     then_do (update_record gid mark_processing) (\<lambda>_.
     then_do (if configured (LUMA_API_KEY cfg)
              then call Luma (generate_with_luma_dream_machine cfg ev gid)
              else ret JNull) (\<lambda>url.
     then_do (if \<not> truthy url \<and> configured (REPLICATE_API_TOKEN cfg)
              then call Replicate (generate_with_replicate cfg ev gid)
              else ret url) (\<lambda>url.
     then_do (if \<not> truthy url \<and> configured (HUGGINGFACE_API_KEY cfg)
              then call HuggingFace (generate_with_huggingface cfg ev gid)
              else ret url) (\<lambda>url.
     then_do (if \<not> truthy url
              then call Mock (generate_enhanced_mock_video ev gid prompt_data)
              else ret url) (\<lambda>url.
       update_record gid (mark_completed url (time_completed ev)))))))"

definition process_video_generation ::
    "config \<Rightarrow> env \<Rightarrow> string \<Rightarrow> video_prompt \<Rightarrow> unit prog" where
  "process_video_generation cfg ev gid prompt_data =
     try_except (process_try cfg ev gid prompt_data) (\<lambda>e. update_record gid (mark_failed e))"

section \<open>The endpoints\<close>

text \<open>
  The constraints of the pydantic model \<open>VideoPrompt\<close>. FastAPI checks the request body
  against them before it calls the handler and answers 422 when they fail.
\<close>

definition valid_VideoPrompt :: "config \<Rightarrow> video_prompt \<Rightarrow> bool" where
  "valid_VideoPrompt cfg prompt_data \<longleftrightarrow>
     1 \<le> int (length (prompt prompt_data)) \<and>
     int (length (prompt prompt_data)) \<le> MAX_PROMPT_LENGTH cfg \<and>
     (case duration prompt_data of None \<Rightarrow> True | Some d \<Rightarrow> 5 \<le> d \<and> d \<le> 10)"

record video_response =
  vr_status :: string
  vr_generation_id :: string
  vr_message :: string

text \<open>
  \<open>POST /generate-video\<close>. \<open>generation_id\<close> is the value \<open>uuid.uuid4()\<close> yields and \<open>now\<close>
  the value of \<open>time.time()\<close>.
\<close>

definition generate_video ::
    "config \<Rightarrow> video_prompt \<Rightarrow> string \<Rightarrow> real \<Rightarrow> video_response prog" where
  "generate_video cfg prompt_data generation_id now =
     (if \<not> valid_VideoPrompt cfg prompt_data then raise RequestValidationError
      else if strip (prompt prompt_data) = [] then
        raise (HTTPException 400 ''Prompt cannot be empty'')
      else
        then_do (store_record generation_id
                   \<lparr>status = ''queued'', progress = 0, created_at = now,
                    prompt_text = prompt prompt_data, video_url = None,
                    completed_at = None, error = None\<rparr>) (\<lambda>_.
        then_do (\<lambda>w. (Inr (), w\<lparr>background_tasks :=
                                   background_tasks w @ [(generation_id, prompt_data)]\<rparr>)) (\<lambda>_.
          ret \<lparr>vr_status = ''queued'', vr_generation_id = generation_id,
               vr_message = ''Video generation started using free AI APIs. Check status for progress.''\<rparr>)))"

record status_response =
  sr_status :: string
  sr_progress :: int
  sr_video_url :: "string option"
  sr_error :: "string option"

text \<open>
  The field \<open>video_url: Optional[str]\<close> of \<open>StatusResponse\<close>, given what
  \<open>status_data.get("video_url")\<close> yields: the model (pydantic 2, which turns no other
  value into a string) takes \<open>None\<close> or a string and raises \<open>ValidationError\<close> for any
  other value, which the client sees as a 500.
\<close>

definition optional_str :: "json option \<Rightarrow> exn + string option" where
  "optional_str v =
     (case v of
        None \<Rightarrow> Inr None
      | Some JNull \<Rightarrow> Inr None
      | Some (JStr s) \<Rightarrow> Inr (Some s)
      | Some _ \<Rightarrow> Inl ValidationError)"

text \<open>\<open>GET /status/{generation_id}\<close>\<close>

definition get_generation_status :: "string \<Rightarrow> status_response prog" where
  "get_generation_status generation_id =
     (\<lambda>w. case map_of (generation_status w) generation_id of
        None \<Rightarrow> raise (HTTPException 404 ''Generation ID not found'') w
      | Some status_data \<Rightarrow>
          then_do (lift (optional_str (video_url status_data))) (\<lambda>url.
            ret \<lparr>sr_status = status status_data, sr_progress = progress status_data,
                 sr_video_url = url, sr_error = error status_data\<rparr>) w)"

text \<open>The \<open>active_generations\<close> count of \<open>GET /health\<close>.\<close>

definition active_generations :: "world \<Rightarrow> nat" where
  "active_generations w =
     length [g \<leftarrow> map snd (generation_status w). status g \<in> set [''queued'', ''processing'']]"

text \<open>The \<open>apis_available\<close> flags and the count; the timestamp is left out.\<close>

record health =
  luma_dream_machine_available :: bool
  replicate_available :: bool
  huggingface_available :: bool
  mock_fallback_available :: bool
  active :: nat

definition health_check :: "config \<Rightarrow> health prog" where
  "health_check cfg =
     (\<lambda>w. ret \<lparr>luma_dream_machine_available = configured (LUMA_API_KEY cfg),
                replicate_available = configured (REPLICATE_API_TOKEN cfg),
                huggingface_available = configured (HUGGINGFACE_API_KEY cfg),
                mock_fallback_available = True,
                active = active_generations w\<rparr> w)"

text \<open>
  \<open>DELETE /cleanup\<close> at clock value \<open>current_time\<close>; it returns \<open>(cleaned, remaining)\<close>.
\<close>

definition cleanup_old_generations :: "real \<Rightarrow> (nat \<times> nat) prog" where
  "cleanup_old_generations current_time =
     (\<lambda>w. let cutoff_time = current_time - (24 * 60 * 60);
               to_delete = [gen_id. (gen_id, data) \<leftarrow> generation_status w,
                                    created_at data < cutoff_time]
           in then_do (for_loop to_delete (\<lambda>gen_id. then_do (del_record gen_id) (\<lambda>_. ret None)))
                (\<lambda>_ :: unit option. \<lambda>w'. ret (length to_delete, length (generation_status w')) w') w)"

text \<open>
  FastAPI runs a queued background task once, after the response that queued it has
  been sent. The task at position \<open>i\<close> of the queue is taken off and run to its end.
\<close>

definition run_background_task :: "config \<Rightarrow> env \<Rightarrow> nat \<Rightarrow> unit prog" where
  "run_background_task cfg ev i =
     (\<lambda>w. if i < length (background_tasks w) then
             (case background_tasks w ! i of (gid, prompt_data) \<Rightarrow>
                process_video_generation cfg ev gid prompt_data
                  (w\<lparr>background_tasks := take i (background_tasks w) @ drop (Suc i) (background_tasks w)\<rparr>))
           else ret () w)"

definition init_world :: world where
  "init_world = \<lparr>generation_status = [], background_tasks = [], writes = [], attempts = []\<rparr>"

section \<open>Kinds of provider answers\<close>

text \<open>
  Words for what a provider may do to a request, used to state what the adapters make
  of it. \<open>request_failed ok h\<close>: the request raised, or the response's status is not
  \<open>ok\<close>. \<open>malformed h\<close>: a response came whose body is not a JSON object.
\<close>

definition request_failed :: "int \<Rightarrow> http_outcome \<Rightarrow> bool" where
  "request_failed ok h = (case h of Raises e \<Rightarrow> True | Returns r \<Rightarrow> status_code r \<noteq> ok)"

definition malformed :: "http_outcome \<Rightarrow> bool" where
  "malformed h =
     (case h of
        Raises e \<Rightarrow> False
      | Returns r \<Rightarrow> (case json_body r of Some (JDict kvs) \<Rightarrow> False | _ \<Rightarrow> True))"

text \<open>
  What a status object that reports success may lack. Luma's holds no usable video when
  \<open>assets\<close> is absent, or is an object whose \<open>video\<close> is absent or falsy; its \<open>assets\<close> is
  unusable when it is there and is no object. Replicate's holds no output unless
  \<open>output\<close> is a non-empty list.
\<close>

definition luma_no_video :: "(string \<times> json) list \<Rightarrow> bool" where
  "luma_no_video kvs =
     (case map_of kvs ''assets'' of
        None \<Rightarrow> True
      | Some (JDict assets) \<Rightarrow> (case map_of assets ''video'' of None \<Rightarrow> True | Some v \<Rightarrow> \<not> truthy v)
      | Some _ \<Rightarrow> False)"

definition luma_bad_assets :: "(string \<times> json) list \<Rightarrow> bool" where
  "luma_bad_assets kvs =
     (case map_of kvs ''assets'' of None \<Rightarrow> False | Some (JDict assets) \<Rightarrow> False | Some _ \<Rightarrow> True)"

definition replicate_no_output :: "(string \<times> json) list \<Rightarrow> bool" where
  "replicate_no_output kvs =
     (case map_of kvs ''output'' of Some (JList (first # rest)) \<Rightarrow> False | _ \<Rightarrow> True)"

text \<open>
  A status poll is inconclusive when its response is not a 200, or is a JSON object whose
  state field \<open>key\<close> holds neither the provider's success word \<open>done\<close> nor \<open>failed\<close>, or
  holds \<open>done\<close> while the object lacks the result (\<open>lacks\<close>).
\<close>

definition inconclusive ::
    "string \<Rightarrow> string \<Rightarrow> ((string \<times> json) list \<Rightarrow> bool) \<Rightarrow> http_outcome \<Rightarrow> bool" where
  "inconclusive key done lacks h =
     (case h of
        Raises e \<Rightarrow> False
      | Returns r \<Rightarrow>
          status_code r \<noteq> 200 \<or>
          (case json_body r of
             Some (JDict kvs) \<Rightarrow>
               (map_of kvs key \<noteq> Some (JStr done) \<and> map_of kvs key \<noteq> Some (JStr ''failed'')) \<or>
               (map_of kvs key = Some (JStr done) \<and> lacks kvs)
           | _ \<Rightarrow> False))"

text \<open>
  A status poll fails when the request raises, or a 200 comes whose body is not a JSON
  object, or whose state field \<open>key\<close> says \<open>failed\<close>, or says \<open>done\<close> while the object
  cannot be read (\<open>unusable\<close>).
\<close>

definition poll_fails ::
    "string \<Rightarrow> string \<Rightarrow> ((string \<times> json) list \<Rightarrow> bool) \<Rightarrow> http_outcome \<Rightarrow> bool" where
  "poll_fails key done unusable h =
     (case h of
        Raises e \<Rightarrow> True
      | Returns r \<Rightarrow>
          status_code r = 200 \<and>
          (case json_body r of
             Some (JDict kvs) \<Rightarrow>
               map_of kvs key = Some (JStr ''failed'') \<or>
               (map_of kvs key = Some (JStr done) \<and> unusable kvs)
           | _ \<Rightarrow> True))"

text \<open>
  What a run may be spared. \<open>prints_work ev\<close>: no \<open>print\<close> call raises.
  \<open>not_cancelled ev\<close>: no \<open>await\<close> is cut short by cancellation, so no sleep raises and
  what a request raises is an \<open>Exception\<close>.
\<close>

definition prints_work :: "env \<Rightarrow> bool" where
  "prints_work ev \<longleftrightarrow> (\<forall>line. print_raises ev line = None)"

definition catchable :: "http_outcome \<Rightarrow> bool" where
  "catchable h = (case h of Raises e \<Rightarrow> is_Exception e | Returns r \<Rightarrow> True)"

definition not_cancelled :: "env \<Rightarrow> bool" where
  "not_cancelled ev \<longleftrightarrow>
     (\<forall>line i. sleep_raises ev line i = None) \<and>
     catchable (luma_post ev) \<and> (\<forall>i. catchable (luma_get ev i)) \<and>
     catchable (replicate_post ev) \<and> (\<forall>i. catchable (replicate_get ev i)) \<and>
     catchable (huggingface_post ev)"

section \<open>While a generation is processed\<close>

text \<open>
  \<open>during gid r w0 ps w\<close>: starting from the state \<open>w0\<close>, the record of \<open>gid\<close> has been
  stored with the successive progress values \<open>ps\<close> and is otherwise \<open>r\<close>; nothing else
  of the dict, and nothing of the task queue, has changed.
\<close>

definition during :: "string \<Rightarrow> gen_record \<Rightarrow> world \<Rightarrow> int list \<Rightarrow> world \<Rightarrow> bool" where
  "during gid r w0 ps w \<longleftrightarrow>
     generation_status w =
       AList.update gid (r\<lparr>progress := last (progress r # ps)\<rparr>) (generation_status w0) \<and>
     writes w = writes w0 @ map (\<lambda>p. (gid, r\<lparr>progress := p\<rparr>)) ps \<and>
     background_tasks w = background_tasks w0"

text \<open>
  \<open>milestones b qs\<close>: the progress values \<open>qs\<close> one adapter has written so far never
  decrease and lie between 25 and \<open>b\<close>.
\<close>

definition milestones :: "int \<Rightarrow> int list \<Rightarrow> bool" where
  "milestones b qs \<longleftrightarrow> sorted qs \<and> list_all (\<lambda>q. 25 \<le> q \<and> q \<le> b) qs"

text \<open>
  \<open>climbs gid r w0 base b m b'\<close>: run after the progress values \<open>base\<close> and some
  milestones up to \<open>b\<close>, the statement \<open>m\<close> adds milestones up to \<open>b'\<close> at most, whether it
  returns or raises, and leaves \<open>attempts\<close> alone.
\<close>

definition climbs ::
    "string \<Rightarrow> gen_record \<Rightarrow> world \<Rightarrow> int list \<Rightarrow> int \<Rightarrow> 'a prog \<Rightarrow> int \<Rightarrow> bool" where
  "climbs gid r w0 base b m b' \<longleftrightarrow>
     (\<forall>w qs. during gid r w0 (base @ qs) w \<and> milestones b qs \<longrightarrow>
        (\<exists>qs'. during gid r w0 (base @ qs @ qs') (snd (m w)) \<and> milestones b' (qs @ qs')) \<and>
        attempts (snd (m w)) = attempts w)"

text \<open>
  \<open>returned_url tried a\<close>: in the list \<open>tried\<close> of attempts, adapter \<open>a\<close> was invoked and
  returned a value the orchestrator takes for a video URL (a truthy one).
\<close>

definition returned_url :: "(adapter \<times> (exn + json)) list \<Rightarrow> adapter \<Rightarrow> bool" where
  "returned_url tried a =
     list_ex (\<lambda>(b, res). b = a \<and> (case res of Inr v \<Rightarrow> truthy v | Inl e \<Rightarrow> False)) tried"

text \<open>\<open>raised tried a\<close>: adapter \<open>a\<close> was invoked and raised to the orchestrator.\<close>

definition raised :: "(adapter \<times> (exn + json)) list \<Rightarrow> adapter \<Rightarrow> bool" where
  "raised tried a =
     list_ex (\<lambda>(b, res). b = a \<and> (case res of Inr v \<Rightarrow> False | Inl e \<Rightarrow> True)) tried"

text \<open>
  \<open>returned_nothing res\<close>: what the last adapter handed back is a value the orchestrator
  does not take for a video URL, so that it goes on to the next adapter.
\<close>

definition returned_nothing :: "exn + json \<Rightarrow> bool" where
  "returned_nothing res = (case res of Inr v \<Rightarrow> \<not> truthy v | Inl e \<Rightarrow> False)"

text \<open>\<open>only_exceptions m\<close>: whatever \<open>m\<close> raises, an \<open>except Exception\<close> around it catches.\<close>

definition only_exceptions :: "'a prog \<Rightarrow> bool" where
  "only_exceptions m \<longleftrightarrow> (\<forall>w e. fst (m w) = Inl e \<longrightarrow> is_Exception e)"

section \<open>The running service\<close>

text \<open>
  What happens to the process, one event at a time: a request to one of the endpoints
  (with the values \<open>uuid4()\<close> and \<open>time.time()\<close> yield while it is served), or FastAPI
  running the queued background task at some position (with what the providers answer
  during that run). A task runs from its first statement to its last with no other
  event in between.
\<close>

datatype event =
    PostGenerateVideo video_prompt string real
  | GetStatus string
  | GetHealth
  | DeleteCleanup real
  | RunTask env nat

fun handle :: "config \<Rightarrow> event \<Rightarrow> world \<Rightarrow> world" where
  "handle cfg (PostGenerateVideo prompt_data generation_id now) w =
     snd (generate_video cfg prompt_data generation_id now w)"
| "handle cfg (GetStatus generation_id) w = snd (get_generation_status generation_id w)"
| "handle cfg GetHealth w = snd (health_check cfg w)"
| "handle cfg (DeleteCleanup now) w = snd (cleanup_old_generations now w)"
| "handle cfg (RunTask ev i) w = snd (run_background_task cfg ev i w)"

fun serve :: "config \<Rightarrow> event list \<Rightarrow> world \<Rightarrow> world" where
  "serve cfg [] w = w"
| "serve cfg (e # es) w = serve cfg es (handle cfg e w)"

text \<open>
  \<open>uuid4()\<close> is taken never to repeat itself: the id a request gets has not been a key
  of the dict before.
\<close>

fun fresh_id :: "event \<Rightarrow> world \<Rightarrow> bool" where
  "fresh_id (PostGenerateVideo prompt_data generation_id now) w =
     (generation_id \<notin> set (map fst (writes w)))"
| "fresh_id e w = True"

fun uuids_fresh :: "config \<Rightarrow> event list \<Rightarrow> world \<Rightarrow> bool" where
  "uuids_fresh cfg [] w = True"
| "uuids_fresh cfg (e # es) w = (fresh_id e w \<and> uuids_fresh cfg es (handle cfg e w))"

text \<open>The clock values of the cleanup requests among some events.\<close>

fun cleanup_times :: "event list \<Rightarrow> real list" where
  "cleanup_times [] = []"
| "cleanup_times (DeleteCleanup now # es) = now # cleanup_times es"
| "cleanup_times (e # es) = cleanup_times es"

text \<open>
  What holds of every state the service reaches: the dict and the task queue have no
  key twice; every entry of the dict was stored at some time, and every queued task's
  id was stored; the record of a queued task, if it is still in the dict, is \<open>queued\<close>;
  all values ever stored under one id agree on \<open>prompt_text\<close> and \<open>created_at\<close>; and a
  value with a \<open>video_url\<close> is \<open>completed\<close>.
\<close>

definition sound :: "world \<Rightarrow> bool" where
  "sound w \<longleftrightarrow>
     distinct (map fst (generation_status w)) \<and>
     distinct (map fst (background_tasks w)) \<and>
     set (generation_status w) \<subseteq> set (writes w) \<and>
     fst ` set (background_tasks w) \<subseteq> fst ` set (writes w) \<and>
     (\<forall>g p x. (g, p) \<in> set (background_tasks w) \<and> map_of (generation_status w) g = Some x
        \<longrightarrow> status x = ''queued'') \<and>
     (\<forall>g x y. (g, x) \<in> set (writes w) \<and> (g, y) \<in> set (writes w)
        \<longrightarrow> prompt_text x = prompt_text y \<and> created_at x = created_at y) \<and>
     (\<forall>g x. (g, x) \<in> set (writes w) \<and> video_url x \<noteq> None \<longrightarrow> status x = ''completed'')"

section \<open>Sample inputs\<close>

definition no_keys :: config where
  "no_keys = \<lparr>LUMA_API_KEY = None, REPLICATE_API_TOKEN = None, HUGGINGFACE_API_KEY = None,
              MAX_PROMPT_LENGTH = 500\<rparr>"

definition all_keys :: config where
  "all_keys = \<lparr>LUMA_API_KEY = Some ''luma-key'', REPLICATE_API_TOKEN = Some ''r8-token'',
               HUGGINGFACE_API_KEY = Some ''hf-key'', MAX_PROMPT_LENGTH = 500\<rparr>"

text \<open>Every request fails to connect; \<open>print\<close> and \<open>sleep\<close> work; completion is at clock
  value 1060.\<close>

definition offline :: env where
  "offline = \<lparr>luma_post = Raises (TransportError ''connect''),
              luma_get = (\<lambda>_. Raises (TransportError ''connect'')),
              replicate_post = Raises (TransportError ''connect''),
              replicate_get = (\<lambda>_. Raises (TransportError ''connect'')),
              huggingface_post = Raises (TransportError ''connect''),
              print_raises = (\<lambda>_. None), sleep_raises = (\<lambda>_ _. None),
      time_completed = 1060\<rparr>"

definition cat_prompt :: video_prompt where
  "cat_prompt = \<lparr>prompt = ''My Cat'', duration = Some 7, style = Some ''cinematic''\<rparr>"

definition ocean_prompt :: video_prompt where
  "ocean_prompt = \<lparr>prompt = ''Ocean spray'', duration = None, style = None\<rparr>"

definition forest_prompt :: video_prompt where
  "forest_prompt = \<lparr>prompt = ''a FOREST'', duration = Some 5, style = None\<rparr>"

definition city_prompt :: video_prompt where
  "city_prompt = \<lparr>prompt = ''City lights'', duration = Some 10, style = Some ''noir''\<rparr>"

definition lighthouse_prompt :: video_prompt where
  "lighthouse_prompt =
     \<lparr>prompt = ''a story about a lighthouse'', duration = Some 7, style = Some ''cinematic''\<rparr>"

text \<open>The state right after \<open>POST /generate-video\<close> accepted \<open>cat_prompt\<close> at time 1000.\<close>

definition one_queued :: world where
  "one_queued = snd (generate_video no_keys cat_prompt ''id-1'' 1000 init_world)"

definition two_records :: world where
  "two_records =
     \<lparr>generation_status =
        [(''id-1'', \<lparr>status = ''completed'', progress = 100, created_at = 1000,
                    prompt_text = ''My Cat'', video_url = Some (JStr cat_url),
                    completed_at = Some 1060, error = None\<rparr>),
         (''id-2'', \<lparr>status = ''queued'', progress = 0, created_at = 50000,
                    prompt_text = ''Ocean spray'', video_url = None,
                    completed_at = None, error = None\<rparr>)],
      background_tasks = [(''id-2'', \<lparr>prompt = ''Ocean spray'', duration = None, style = None\<rparr>)],
      writes = [], attempts = []\<rparr>"

definition empty_prompt :: video_prompt where
  "empty_prompt = \<lparr>prompt = [], duration = Some 7, style = Some ''cinematic''\<rparr>"

text \<open>A space, a tab and a newline.\<close>

definition blank_prompt :: video_prompt where
  "blank_prompt = \<lparr>prompt = [CHR '' '', CHR 0x09, CHR 0x0A], duration = Some 7,
                    style = Some ''cinematic''\<rparr>"

definition luma_video :: string where
  "luma_video = ''https://storage.cdn-luma.com/dream_machine/7f3a/video.mp4''"

definition replicate_video :: string where
  "replicate_video = ''https://replicate.delivery/pbxt/animatediff/out.mp4''"

text \<open>
  Every provider works. Luma accepts the job, answers the first poll with 503 and the
  second with the finished video; Replicate accepts the job and has the output at the
  first poll; Hugging Face answers with 1001 bytes that are no JSON.
\<close>

definition providers_up :: env where
  "providers_up =
     \<lparr>luma_post = Returns \<lparr>status_code = 201,
                           json_body = Some (JDict [(''id'', JStr ''gen-7'')]), content = []\<rparr>,
      luma_get = (\<lambda>i. if i = 0
                       then Returns \<lparr>status_code = 503, json_body = None, content = []\<rparr>
                       else Returns \<lparr>status_code = 200,
                              json_body = Some (JDict [(''state'', JStr ''completed''),
                                (''assets'', JDict [(''video'', JStr luma_video)])]),
                              content = []\<rparr>),
      replicate_post = Returns \<lparr>status_code = 201,
                           json_body = Some (JDict [(''id'', JStr ''pred-3'')]), content = []\<rparr>,
      replicate_get = (\<lambda>i. Returns \<lparr>status_code = 200,
                              json_body = Some (JDict [(''status'', JStr ''succeeded''),
                                (''output'', JList [JStr replicate_video])]),
                              content = []\<rparr>),
      huggingface_post = Returns \<lparr>status_code = 200, json_body = None,
                                  content = replicate 1001 (CHR ''x'')\<rparr>,
      print_raises = (\<lambda>_. None), sleep_raises = (\<lambda>_ _. None),
      time_completed = 1060\<rparr>"

text \<open>Luma rejects the job with a 500; the other providers work.\<close>

definition luma_down :: env where
  "luma_down = providers_up\<lparr>luma_post :=
     Returns \<lparr>status_code = 500, json_body = None, content = []\<rparr>\<rparr>"

text \<open>Luma accepts the job, answers the first poll with 503 and then reports failure.\<close>

definition luma_job_fails :: env where
  "luma_job_fails = providers_up\<lparr>luma_get := (\<lambda>i. if i = 0
       then Returns \<lparr>status_code = 503, json_body = None, content = []\<rparr>
       else Returns \<lparr>status_code = 200,
              json_body = Some (JDict [(''state'', JStr ''failed'')]), content = []\<rparr>)\<rparr>"

text \<open>
  Luma accepts the job, reports it completed with no video among the assets at the
  first poll, and failed at the second.
\<close>

definition luma_done_without_video :: env where
  "luma_done_without_video = providers_up\<lparr>luma_get := (\<lambda>i. if i = 0
       then Returns \<lparr>status_code = 200,
              json_body = Some (JDict [(''state'', JStr ''completed''), (''assets'', JDict [])]),
              content = []\<rparr>
       else Returns \<lparr>status_code = 200,
              json_body = Some (JDict [(''state'', JStr ''failed'')]), content = []\<rparr>)\<rparr>"

text \<open>Luma accepts the job and says \<open>dreaming\<close> at every poll.\<close>

definition luma_never_done :: env where
  "luma_never_done = providers_up\<lparr>luma_get := (\<lambda>i.
       Returns \<lparr>status_code = 200,
         json_body = Some (JDict [(''state'', JStr ''dreaming'')]), content = []\<rparr>)\<rparr>"

text \<open>No provider answers, and standard output is closed: \<open>print\<close> raises.\<close>

definition stdout_closed :: env where
  "stdout_closed =
     offline\<lparr>print_raises := (\<lambda>_. Some (ValueError ''I/O operation on closed file.''))\<rparr>"

text \<open>Luma accepts the job; the task is cancelled during the third sleep of the polling.\<close>

definition cancelled_while_polling :: env where
  "cancelled_while_polling =
     luma_never_done\<lparr>sleep_raises := (\<lambda>line i. if line = 217 \<and> i = 2 then Some CancelledError
                                              else None)\<rparr>"

text \<open>A request is accepted at time 1000 and its task runs.\<close>

definition one_generation :: "env \<Rightarrow> event list" where
  "one_generation ev = [PostGenerateVideo cat_prompt ''id-1'' 1000, RunTask ev 0]"

text \<open>
  Afterwards: a status read, a second request, its task, and a cleanup at time 3000.
\<close>

definition more_traffic :: "event list" where
  "more_traffic =
     [GetStatus ''id-1'',
      PostGenerateVideo \<lparr>prompt = ''Ocean spray'', duration = None, style = None\<rparr> ''id-2'' 2000,
      RunTask offline 0, GetHealth, DeleteCleanup 3000]"

section \<open>Substrings\<close>

lemma py_in_iff: "py_in word s \<longleftrightarrow> sublist word s"
  by (induction s) (auto simp: sublist_Cons_right)

lemma any_in_iff: "any_in words s \<longleftrightarrow> (\<exists>k \<in> set words. sublist k s)"
  by (simp add: any_in_def list_ex_iff py_in_iff)

section \<open>The mock adapter\<close>

lemma mock_returns:
  "fst (generate_enhanced_mock_video ev gid pd w) = Inr v \<Longrightarrow> v = JStr (mock_video_url (prompt pd))"
  by (auto simp: generate_enhanced_mock_video_def then_do_def set_progress_def update_record_def
      store_record_def print_def asyncio_sleep_def ret_def raise_def
      split: option.splits sum.splits prod.splits)

text \<open>The keyword rule, with the word lists written out.\<close>

lemma mock_video_url_rule:
  "mock_video_url p =
     (if \<exists>k \<in> set [''cat'', ''kitten'', ''pet'']. sublist k (lower p) then cat_url
      else if \<exists>k \<in> set [''ocean'', ''wave'', ''water'', ''sea'']. sublist k (lower p) then ocean_url
      else if \<exists>k \<in> set [''nature'', ''forest'', ''tree'', ''landscape'']. sublist k (lower p)
        then nature_url
      else if \<exists>k \<in> set [''city'', ''urban'', ''building'', ''street'']. sublist k (lower p)
        then city_url
      else default_url)"
  unfolding mock_video_url_def Let_def any_in_iff cat_words_def ocean_words_def nature_words_def
    city_words_def ..

text \<open>
  C4. The URL the mock adapter returns is a function of the prompt text alone. A prompt
  whose lowercase form contains "cat" gets the cat URL; one that contains "ocean" and no
  keyword of the cat category gets the ocean URL; one that contains "forest" and no
  keyword of the two categories before gets the nature URL; one that contains "city" and
  no keyword of the three categories before gets the city URL; a prompt with no keyword
  at all gets the default URL, as "a story about a lighthouse" does; "CAT video" gets
  the URL of "cat video".
\<close>

theorem mock_keyword_mapping:
  "(sublist ''cat'' (lower p) \<longrightarrow> mock_video_url p = cat_url) \<and>
   (sublist ''ocean'' (lower p) \<and> (\<forall>k \<in> set cat_words. \<not> sublist k (lower p))
      \<longrightarrow> mock_video_url p = ocean_url) \<and>
   (sublist ''forest'' (lower p) \<and> (\<forall>k \<in> set (cat_words @ ocean_words). \<not> sublist k (lower p))
      \<longrightarrow> mock_video_url p = nature_url) \<and>
   (sublist ''city'' (lower p) \<and>
      (\<forall>k \<in> set (cat_words @ ocean_words @ nature_words). \<not> sublist k (lower p))
      \<longrightarrow> mock_video_url p = city_url) \<and>
   ((\<forall>k \<in> set (cat_words @ ocean_words @ nature_words @ city_words). \<not> sublist k (lower p))
      \<longrightarrow> mock_video_url p = default_url) \<and>
   mock_video_url ''a story about a lighthouse'' = default_url \<and>
   mock_video_url ''CAT video'' = mock_video_url ''cat video'' \<and>
   mock_video_url ''CAT video'' = cat_url \<and>
   (fst (generate_enhanced_mock_video ev gid pd w) = Inr v
      \<longrightarrow> v = JStr (mock_video_url (prompt pd)))"
proof -
  have cat: "sublist ''cat'' (lower p) \<Longrightarrow> mock_video_url p = cat_url"
    by (simp add: mock_video_url_def any_in_iff cat_words_def)
  have ocean: "sublist ''ocean'' (lower p) \<Longrightarrow> \<forall>k \<in> set cat_words. \<not> sublist k (lower p)
      \<Longrightarrow> mock_video_url p = ocean_url"
    by (simp add: mock_video_url_def any_in_iff ocean_words_def)
  have forest: "sublist ''forest'' (lower p)
      \<Longrightarrow> \<forall>k \<in> set (cat_words @ ocean_words). \<not> sublist k (lower p)
      \<Longrightarrow> mock_video_url p = nature_url"
    by (simp add: mock_video_url_def any_in_iff nature_words_def ball_Un)
  have city: "sublist ''city'' (lower p)
      \<Longrightarrow> \<forall>k \<in> set (cat_words @ ocean_words @ nature_words). \<not> sublist k (lower p)
      \<Longrightarrow> mock_video_url p = city_url"
    by (simp add: mock_video_url_def any_in_iff city_words_def ball_Un)
  have dflt: "\<forall>k \<in> set (cat_words @ ocean_words @ nature_words @ city_words). \<not> sublist k (lower p)
      \<Longrightarrow> mock_video_url p = default_url"
    by (simp add: mock_video_url_def any_in_iff ball_Un)
  have lighthouse: "mock_video_url ''a story about a lighthouse'' = default_url"
    by code_simp
  have upper: "mock_video_url ''CAT video'' = cat_url"
    by code_simp
  have lowercase: "mock_video_url ''cat video'' = cat_url"
    by code_simp
  from cat ocean forest city dflt lighthouse upper lowercase mock_returns [of ev gid pd w v]
  show ?thesis by (intro conjI impI) simp_all
qed

theorem mock_keyword_mapping_witness:
  "sublist ''cat'' (lower ''My Cat'') \<and> mock_video_url ''My Cat'' = cat_url \<and>
   sublist ''ocean'' (lower ''Ocean spray'') \<and>
   \<not> (\<exists>k \<in> set cat_words. sublist k (lower ''Ocean spray'')) \<and>
   mock_video_url ''Ocean spray'' = ocean_url \<and>
   sublist ''forest'' (lower ''a FOREST'') \<and>
   \<not> (\<exists>k \<in> set (cat_words @ ocean_words). sublist k (lower ''a FOREST'')) \<and>
   mock_video_url ''a FOREST'' = nature_url \<and>
   sublist ''city'' (lower ''City lights'') \<and>
   \<not> (\<exists>k \<in> set (cat_words @ ocean_words @ nature_words). sublist k (lower ''City lights'')) \<and>
   mock_video_url ''City lights'' = city_url \<and>
   \<not> (\<exists>k \<in> set (cat_words @ ocean_words @ nature_words @ city_words).
      sublist k (lower ''a lighthouse'')) \<and>
   mock_video_url ''a lighthouse'' = default_url \<and>
   fst (generate_enhanced_mock_video offline ''id-1'' cat_prompt one_queued) = Inr (JStr cat_url)"
proof -
  have c: "sublist ''cat'' (lower ''My Cat'')"
    by code_simp
  have o: "sublist ''ocean'' (lower ''Ocean spray'') \<and>
      \<not> (\<exists>k \<in> set cat_words. sublist k (lower ''Ocean spray''))"
    by code_simp
  have f: "sublist ''forest'' (lower ''a FOREST'') \<and>
      \<not> (\<exists>k \<in> set (cat_words @ ocean_words). sublist k (lower ''a FOREST''))"
    by code_simp
  have t: "sublist ''city'' (lower ''City lights'') \<and>
      \<not> (\<exists>k \<in> set (cat_words @ ocean_words @ nature_words). sublist k (lower ''City lights''))"
    by code_simp
  have d: "\<forall>k \<in> set (cat_words @ ocean_words @ nature_words @ city_words).
      \<not> sublist k (lower ''a lighthouse'')"
    by code_simp
  have m: "fst (generate_enhanced_mock_video offline ''id-1'' cat_prompt one_queued)
      = Inr (JStr cat_url)"
    by code_simp
  from c mock_keyword_mapping [of "''My Cat''"]
  have "mock_video_url ''My Cat'' = cat_url" by blast
  moreover from o mock_keyword_mapping [of "''Ocean spray''"]
  have "mock_video_url ''Ocean spray'' = ocean_url" by blast
  moreover from f mock_keyword_mapping [of "''a FOREST''"]
  have "mock_video_url ''a FOREST'' = nature_url" by blast
  moreover from t mock_keyword_mapping [of "''City lights''"]
  have "mock_video_url ''City lights'' = city_url" by blast
  moreover from d mock_keyword_mapping [of "''a lighthouse''"]
  have "mock_video_url ''a lighthouse'' = default_url" by blast
  ultimately show ?thesis using c o f t d m by blast
qed

section \<open>Cleanup\<close>

lemma comprehension_filter:
  "[k. (k, d) \<leftarrow> s, P d] = map fst (filter (\<lambda>x. P (snd x)) s)"
  by (induction s) auto

lemma then_do_Inr: "m w = (Inr v, w') \<Longrightarrow> then_do m f w = f v w'"
  by (simp add: then_do_def)

lemma then_do_Inl: "m w = (Inl e, w') \<Longrightarrow> then_do m f w = (Inl e, w')"
  by (simp add: then_do_def)

lemma delete_filter: "AList.delete k s = filter (\<lambda>x. fst x \<noteq> k) s"
  by (induction s) (auto simp: AList.delete_eq)

lemma del_loop:
  "distinct ks \<Longrightarrow> set ks \<subseteq> fst ` set (generation_status w) \<Longrightarrow>
   for_loop ks (\<lambda>k. then_do (del_record k) (\<lambda>_. ret (None :: unit option))) w =
     (Inr None, w\<lparr>generation_status := filter (\<lambda>x. fst x \<notin> set ks) (generation_status w)\<rparr>)"
proof (induction ks arbitrary: w)
  case Nil
  then show ?case by (simp add: ret_def)
next
  case (Cons k ks)
  let ?w1 = "w\<lparr>generation_status := AList.delete k (generation_status w)\<rparr>"
  from Cons.prems obtain r where r: "map_of (generation_status w) k = Some r"
    by (cases "map_of (generation_status w) k") (auto simp: map_of_eq_None_iff)
  then have step: "then_do (del_record k) (\<lambda>_. ret (None :: unit option)) w = (Inr None, ?w1)"
    by (simp add: then_do_def del_record_def ret_def delete_filter)
  from Cons.prems have "distinct ks" "set ks \<subseteq> fst ` set (generation_status ?w1)"
    by (auto simp: delete_filter) force
  from Cons.IH [OF this]
  have "for_loop ks (\<lambda>k. then_do (del_record k) (\<lambda>_. ret (None :: unit option))) ?w1 =
      (Inr None, w\<lparr>generation_status := filter (\<lambda>x. fst x \<notin> set (k # ks)) (generation_status w)\<rparr>)"
    by (simp add: delete_filter)
  then show ?case
    by (simp add: step delete_filter)
qed


lemma cleanup_result:
  assumes "distinct (map fst (generation_status w))"
  shows "cleanup_old_generations now w =
     (Inr (length [x \<leftarrow> generation_status w. now - created_at (snd x) > 24 * 60 * 60],
           length [x \<leftarrow> generation_status w. \<not> now - created_at (snd x) > 24 * 60 * 60]),
      w\<lparr>generation_status := [x \<leftarrow> generation_status w. \<not> now - created_at (snd x) > 24 * 60 * 60]\<rparr>)"
proof -
  define s where "s = generation_status w"
  define old where "old = (\<lambda>d :: gen_record. created_at d < now - (24 * 60 * 60))"
  define ks where "ks = [k. (k, d) \<leftarrow> s, old d]"
  define body where "body = (\<lambda>k. then_do (del_record k) (\<lambda>_. ret (None :: unit option)))"
  have ks: "ks = map fst (filter (\<lambda>x. old (snd x)) s)"
    unfolding ks_def by (rule comprehension_filter)
  from assms have d: "distinct ks"
    unfolding ks s_def by (rule distinct_map_filter)
  have sub: "set ks \<subseteq> fst ` set (generation_status w)"
    unfolding ks s_def by auto
  have keep: "filter (\<lambda>x. fst x \<notin> set ks) s = filter (\<lambda>x. \<not> old (snd x)) s"
  proof (rule filter_cong [OF refl])
    fix x assume x: "x \<in> set s"
    show "(fst x \<notin> set ks) = (\<not> old (snd x))"
    proof
      assume "fst x \<notin> set ks"
      with x show "\<not> old (snd x)" unfolding ks by force
    next
      assume n: "\<not> old (snd x)"
      show "fst x \<notin> set ks"
      proof
        assume "fst x \<in> set ks"
        then obtain y where y: "y \<in> set s" "old (snd y)" "fst y = fst x"
          unfolding ks by auto
        from assms x y(1,3) have "x = y"
          unfolding s_def by (metis eq_key_imp_eq_value prod.collapse)
        with n y(2) show False by simp
      qed
    qed
  qed
  have loop: "for_loop ks body w =
      (Inr None, w\<lparr>generation_status := filter (\<lambda>x. fst x \<notin> set ks) s\<rparr>)"
    unfolding body_def s_def by (rule del_loop [OF d sub])
  have "cleanup_old_generations now w =
      then_do (for_loop ks body) (\<lambda>_ w'. ret (length ks, length (generation_status w')) w') w"
    by (simp add: cleanup_old_generations_def Let_def ks_def body_def s_def old_def)
  also have "\<dots> = (Inr (length ks, length (filter (\<lambda>x. \<not> old (snd x)) s)),
      w\<lparr>generation_status := filter (\<lambda>x. \<not> old (snd x)) s\<rparr>)"
    by (simp add: then_do_Inr [of "for_loop ks body" w, OF loop] ret_def keep)
  also have "length ks = length (filter (\<lambda>x. old (snd x)) s)"
    unfolding ks by simp
  finally show ?thesis
    unfolding old_def s_def by (simp add: less_diff_eq add.commute)
qed


text \<open>
  C9. With the dict's keys distinct, \<open>DELETE /cleanup\<close> at clock value \<open>now\<close> keeps, in order
  and unchanged, exactly the records created at most 24 hours (86400 seconds) before
  \<open>now\<close>, deletes the others, and returns the number deleted and the number left; a second
  call at the same clock value deletes nothing and returns 0 and the same number left.
\<close>

theorem cleanup_removes_exactly_old:
  assumes "distinct (map fst (generation_status w))"
  shows "cleanup_old_generations now w =
     (Inr (length [x \<leftarrow> generation_status w. now - created_at (snd x) > 24 * 60 * 60],
           length [x \<leftarrow> generation_status w. \<not> now - created_at (snd x) > 24 * 60 * 60]),
      w\<lparr>generation_status := [x \<leftarrow> generation_status w. \<not> now - created_at (snd x) > 24 * 60 * 60]\<rparr>)
    \<and> cleanup_old_generations now
        (w\<lparr>generation_status := [x \<leftarrow> generation_status w. \<not> now - created_at (snd x) > 24 * 60 * 60]\<rparr>) =
     (Inr (0, length [x \<leftarrow> generation_status w. \<not> now - created_at (snd x) > 24 * 60 * 60]),
      w\<lparr>generation_status := [x \<leftarrow> generation_status w. \<not> now - created_at (snd x) > 24 * 60 * 60]\<rparr>)"
proof -
  let ?keep = "[x \<leftarrow> generation_status w. \<not> now - created_at (snd x) > 24 * 60 * 60]"
  let ?w' = "w\<lparr>generation_status := ?keep\<rparr>"
  note first = cleanup_result [OF assms, of now]
  from assms have "distinct (map fst (generation_status ?w'))"
    by (simp add: distinct_map_filter)
  from cleanup_result [OF this, of now]
  have second: "cleanup_old_generations now ?w' = (Inr (0, length ?keep), ?w')"
    by simp
  from first second show ?thesis by simp
qed

theorem cleanup_removes_exactly_old_witness:
  "distinct (map fst (generation_status two_records)) \<and>
   cleanup_old_generations 90000 two_records =
     (Inr (1, 1), two_records\<lparr>generation_status := [(''id-2'',
         \<lparr>status = ''queued'', progress = 0, created_at = 50000,
          prompt_text = ''Ocean spray'', video_url = None,
          completed_at = None, error = None\<rparr>)]\<rparr>) \<and>
   cleanup_old_generations 90000 (two_records\<lparr>generation_status := [(''id-2'',
         \<lparr>status = ''queued'', progress = 0, created_at = 50000,
          prompt_text = ''Ocean spray'', video_url = None,
          completed_at = None, error = None\<rparr>)]\<rparr>) =
     (Inr (0, 1), two_records\<lparr>generation_status := [(''id-2'',
         \<lparr>status = ''queued'', progress = 0, created_at = 50000,
          prompt_text = ''Ocean spray'', video_url = None,
          completed_at = None, error = None\<rparr>)]\<rparr>)"
proof -
  have d: "distinct (map fst (generation_status two_records))"
    by (simp add: two_records_def)
  from cleanup_removes_exactly_old [OF d, of 90000] d show ?thesis
    by (simp add: two_records_def)
qed

section \<open>Accepting a request\<close>

text \<open>
  C3, as the claim states it, fails for the empty prompt: the pydantic model rejects it
  (\<open>min_length=1\<close>) before the handler runs, and the client sees 422, not 400.
\<close>

theorem empty_prompt_is_422:
  "strip (prompt empty_prompt) = [] \<and>
   generate_video no_keys empty_prompt ''id-2'' 2000 one_queued
     = (Inl RequestValidationError, one_queued) \<and>
   response_code RequestValidationError \<noteq> 400"
  by (simp add: generate_video_def empty_prompt_def valid_VideoPrompt_def strip_def raise_def)

text \<open>
  C3, amended. A request whose prompt is empty or only whitespace is rejected and the
  state is left as it was, so no record is created and the active count of \<open>/health\<close> is
  unchanged. The status code is 400 when the body passes the model's constraints and
  422 when it does not; for the empty prompt it is 422.
\<close>

theorem blank_prompt_rejected:
  assumes "strip (prompt prompt_data) = []"
  shows "\<exists>e. generate_video cfg prompt_data generation_id now w = (Inl e, w) \<and>
           response_code e = (if valid_VideoPrompt cfg prompt_data then 400 else 422) \<and>
           (prompt prompt_data = [] \<longrightarrow> response_code e = 422) \<and>
           active_generations (snd (generate_video cfg prompt_data generation_id now w))
             = active_generations w"
  using assms by (auto simp: generate_video_def raise_def valid_VideoPrompt_def)

theorem blank_prompt_rejected_witness:
  "strip (prompt blank_prompt) = [] \<and>
   valid_VideoPrompt no_keys blank_prompt \<and>
   (\<exists>e. generate_video no_keys blank_prompt ''id-2'' 2000 one_queued = (Inl e, one_queued) \<and>
        response_code e = 400) \<and>
   strip (prompt empty_prompt) = [] \<and>
   (\<exists>e. generate_video no_keys empty_prompt ''id-2'' 2000 one_queued = (Inl e, one_queued) \<and>
        response_code e = 422)"
proof -
  have s: "strip (prompt blank_prompt) = []"
    by (simp add: blank_prompt_def strip_def py_isspace_def)
  have v: "valid_VideoPrompt no_keys blank_prompt"
    by (simp add: valid_VideoPrompt_def no_keys_def blank_prompt_def)
  have s': "strip (prompt empty_prompt) = []"
    by (simp add: empty_prompt_def strip_def)
  have p: "prompt empty_prompt = []"
    by (simp add: empty_prompt_def)
  from blank_prompt_rejected [OF s, of no_keys "''id-2''" 2000 one_queued] v
  have b: "\<exists>e. generate_video no_keys blank_prompt ''id-2'' 2000 one_queued = (Inl e, one_queued) \<and>
           response_code e = 400"
    by auto
  from blank_prompt_rejected [OF s', of no_keys "''id-2''" 2000 one_queued] p
  have e: "\<exists>e. generate_video no_keys empty_prompt ''id-2'' 2000 one_queued = (Inl e, one_queued) \<and>
           response_code e = 422"
    by auto
  from s v b s' e show ?thesis by blast
qed

section \<open>No provider configured\<close>

text \<open>
  C8. With no provider credential configured, a dispatched generation whose record is
  in the dict and whose run meets no exception (neither of the mock's two sleeps and
  two \<open>print\<close> calls raises) ends with status \<open>completed\<close>, progress 100, the completion
  time recorded, and the URL of the first category, in the order cat, ocean, nature,
  city, one of whose keywords occurs in the lowercased prompt, or the default URL when
  none does.
\<close>

theorem no_keys_completes_with_mock:
  assumes "\<not> configured (LUMA_API_KEY cfg)" and "\<not> configured (REPLICATE_API_TOKEN cfg)"
    and "\<not> configured (HUGGINGFACE_API_KEY cfg)"
    and "map_of (generation_status w) gid = Some r"
    and "sleep_raises ev 378 0 = None" and "sleep_raises ev 381 0 = None"
    and "print_raises ev 398 = None" and "print_raises ev 399 = None"
  shows "fst (process_video_generation cfg ev gid prompt_data w) = Inr () \<and>
     map_of (generation_status (snd (process_video_generation cfg ev gid prompt_data w))) gid =
       Some (r\<lparr>status := ''completed'', progress := 100,
               video_url := Some (JStr
                 (let p = lower (prompt prompt_data)
                  in if \<exists>k \<in> set [''cat'', ''kitten'', ''pet'']. sublist k p then cat_url
                     else if \<exists>k \<in> set [''ocean'', ''wave'', ''water'', ''sea'']. sublist k p
                       then ocean_url
                     else if \<exists>k \<in> set [''nature'', ''forest'', ''tree'', ''landscape'']. sublist k p
                       then nature_url
                     else if \<exists>k \<in> set [''city'', ''urban'', ''building'', ''street'']. sublist k p
                       then city_url
                     else default_url)),
               completed_at := Some (time_completed ev)\<rparr>) \<and>
     drop (length (attempts w)) (attempts (snd (process_video_generation cfg ev gid prompt_data w)))
       = [(Mock, Inr (JStr (mock_video_url (prompt prompt_data))))]"
proof -
  have run: "process_video_generation cfg ev gid prompt_data w =
      (Inr (), w\<lparr>generation_status := AList.update gid
                   (r\<lparr>status := ''completed'', progress := 100,
                      video_url := Some (JStr (mock_video_url (prompt prompt_data))),
                      completed_at := Some (time_completed ev)\<rparr>) (generation_status w),
                 writes := writes w @ map (Pair gid)
                   [mark_processing r, (mark_processing r)\<lparr>progress := 60\<rparr>,
                    (mark_processing r)\<lparr>progress := 80\<rparr>,
                    r\<lparr>status := ''completed'', progress := 100,
                      video_url := Some (JStr (mock_video_url (prompt prompt_data))),
                      completed_at := Some (time_completed ev)\<rparr>],
                 attempts := attempts w @
                   [(Mock, Inr (JStr (mock_video_url (prompt prompt_data))))]\<rparr>)"
    using assms
    by (simp add: process_video_generation_def process_try_def try_except_def then_do_def
        update_record_def store_record_def ret_def call_def generate_enhanced_mock_video_def
        set_progress_def raise_def print_def asyncio_sleep_def AList.update_conv'
        mark_processing_def mark_completed_def)
  show ?thesis
    unfolding run Let_def mock_video_url_rule [symmetric]
    by (simp add: AList.update_conv')
qed

theorem no_keys_completes_with_mock_witness:
  "\<not> configured (LUMA_API_KEY no_keys) \<and> \<not> configured (REPLICATE_API_TOKEN no_keys) \<and>
   \<not> configured (HUGGINGFACE_API_KEY no_keys) \<and>
   map_of (generation_status one_queued) ''id-1'' =
     Some \<lparr>status = ''queued'', progress = 0, created_at = 1000, prompt_text = ''My Cat'',
           video_url = None, completed_at = None, error = None\<rparr> \<and>
   sleep_raises offline 378 0 = None \<and> sleep_raises offline 381 0 = None \<and>
   print_raises offline 398 = None \<and> print_raises offline 399 = None \<and>
   fst (process_video_generation no_keys offline ''id-1'' cat_prompt one_queued) = Inr () \<and>
   map (\<lambda>p. map_of (generation_status
       (snd (process_video_generation no_keys offline ''id-1'' p one_queued))) ''id-1'')
     [cat_prompt, ocean_prompt, forest_prompt, city_prompt, lighthouse_prompt] =
   map (\<lambda>url. Some \<lparr>status = ''completed'', progress = 100, created_at = 1000,
           prompt_text = ''My Cat'', video_url = Some (JStr url), completed_at = Some 1060,
           error = None\<rparr>)
     [''https://sample-videos.com/zip/10/mp4/480/SampleVideo_480x270_1mb.mp4'',
      ''https://www.learningcontainer.com/wp-content/uploads/2020/05/sample-mp4-file.mp4'',
      ''https://commondatastorage.googleapis.com/gtv-videos-bucket/sample/ForBiggerEscapes.mp4'',
      ''https://commondatastorage.googleapis.com/gtv-videos-bucket/sample/ForBiggerJoyrides.mp4'',
      ''https://commondatastorage.googleapis.com/gtv-videos-bucket/sample/BigBuckBunny.mp4'']"
proof -
  let ?r = "\<lparr>status = ''queued'', progress = 0, created_at = 1000, prompt_text = ''My Cat'',
           video_url = None, completed_at = None, error = None\<rparr>"
  let ?rule = "\<lambda>p. if \<exists>k \<in> set [''cat'', ''kitten'', ''pet'']. sublist k p then cat_url
                     else if \<exists>k \<in> set [''ocean'', ''wave'', ''water'', ''sea'']. sublist k p
                       then ocean_url
                     else if \<exists>k \<in> set [''nature'', ''forest'', ''tree'', ''landscape'']. sublist k p
                       then nature_url
                     else if \<exists>k \<in> set [''city'', ''urban'', ''building'', ''street'']. sublist k p
                       then city_url
                     else default_url"
  have k: "\<not> configured (LUMA_API_KEY no_keys)" "\<not> configured (REPLICATE_API_TOKEN no_keys)"
      "\<not> configured (HUGGINGFACE_API_KEY no_keys)"
    by (simp_all add: no_keys_def configured_def)
  have r: "map_of (generation_status one_queued) ''id-1'' = Some ?r"
    by code_simp
  have q: "sleep_raises offline 378 0 = None" "sleep_raises offline 381 0 = None"
      "print_raises offline 398 = None" "print_raises offline 399 = None"
    by (simp_all add: offline_def)
  have t: "time_completed offline = 1060"
    by (simp add: offline_def)
  have u: "?rule (lower (prompt cat_prompt)) =
        ''https://sample-videos.com/zip/10/mp4/480/SampleVideo_480x270_1mb.mp4''"
      "?rule (lower (prompt ocean_prompt)) =
        ''https://www.learningcontainer.com/wp-content/uploads/2020/05/sample-mp4-file.mp4''"
      "?rule (lower (prompt forest_prompt)) =
        ''https://commondatastorage.googleapis.com/gtv-videos-bucket/sample/ForBiggerEscapes.mp4''"
      "?rule (lower (prompt city_prompt)) =
        ''https://commondatastorage.googleapis.com/gtv-videos-bucket/sample/ForBiggerJoyrides.mp4''"
      "?rule (lower (prompt lighthouse_prompt)) =
        ''https://commondatastorage.googleapis.com/gtv-videos-bucket/sample/BigBuckBunny.mp4''"
    by code_simp+
  note run = no_keys_completes_with_mock [OF k r q, unfolded Let_def t]
  from run [of cat_prompt] run [of ocean_prompt] run [of forest_prompt] run [of city_prompt]
    run [of lighthouse_prompt] k r q
  show ?thesis
    unfolding u by simp
qed

section \<open>What the adapters return\<close>

subsection \<open>Loops and handlers\<close>

lemma for_loop_Some:
  "for_loop xs body w = (Inr (Some v), w') \<Longrightarrow>
   \<exists>i < length xs. (\<exists>w1. body (xs ! i) w1 = (Inr (Some v), w')) \<and>
     (\<forall>j < i. \<exists>wa wb. body (xs ! j) wa = (Inr None, wb))"
proof (induction xs arbitrary: w)
  case Nil
  then show ?case by (simp add: ret_def)
next
  case (Cons x xs)
  show ?case
  proof (cases "body x w")
    case (Pair res w1)
    show ?thesis
    proof (cases res)
      case (Inl e)
      with Pair Cons.prems show ?thesis by simp
    next
      case (Inr r)
      show ?thesis
      proof (cases r)
        case None
        with Pair Inr Cons.prems have "for_loop xs body w1 = (Inr (Some v), w')" by simp
        from Cons.IH [OF this] obtain i w2 where i: "i < length xs"
          "body (xs ! i) w2 = (Inr (Some v), w')"
          "\<forall>j < i. \<exists>wa wb. body (xs ! j) wa = (Inr None, wb)"
          by blast
        have "\<exists>wa wb. body ((x # xs) ! j) wa = (Inr None, wb)" if "j < Suc i" for j
        proof (cases j)
          case 0
          with Pair Inr None show ?thesis by auto
        next
          case (Suc k)
          with that i(3) show ?thesis by simp
        qed
        with i(1,2) have "Suc i < length (x # xs) \<and>
            (\<exists>w1. body ((x # xs) ! Suc i) w1 = (Inr (Some v), w')) \<and>
            (\<forall>j < Suc i. \<exists>wa wb. body ((x # xs) ! j) wa = (Inr None, wb))"
          by auto
        then show ?thesis by blast
      next
        case (Some u)
        with Pair Inr Cons.prems have "body ((x # xs) ! 0) w = (Inr (Some v), w')" by simp
        then have "0 < length (x # xs) \<and>
            (\<exists>w1. body ((x # xs) ! 0) w1 = (Inr (Some v), w')) \<and>
            (\<forall>j < (0::nat). \<exists>wa wb. body ((x # xs) ! j) wa = (Inr None, wb))"
          by auto
        then show ?thesis by blast
      qed
    qed
  qed
qed

lemma for_loop_polls:
  assumes "for_loop [0..<n] body w = (Inr (Some v), w')"
  shows "\<exists>i < n. (\<exists>w1. body i w1 = (Inr (Some v), w')) \<and>
        (\<forall>j < i. \<exists>wa wb. body j wa = (Inr None, wb))"
proof -
  from for_loop_Some [OF assms] obtain i where len: "i < length [0..<n]"
    and hit: "\<exists>w1. body ([0..<n] ! i) w1 = (Inr (Some v), w')"
    and before: "\<forall>j < i. \<exists>wa wb. body ([0..<n] ! j) wa = (Inr None, wb)"
    by blast
  from len have i: "i < n" by simp
  from i hit have "\<exists>w1. body i w1 = (Inr (Some v), w')"
    by simp
  moreover have "\<exists>wa wb. body j wa = (Inr None, wb)" if "j < i" for j
  proof -
    from that i have "j < n" by simp
    moreover from before that have "\<exists>wa wb. body ([0..<n] ! j) wa = (Inr None, wb)"
      by blast
    ultimately show ?thesis by simp
  qed
  ultimately show ?thesis using i by blast
qed

lemma then_do_InrD:
  "then_do m f w = (Inr v, w') \<Longrightarrow> \<exists>x w1. m w = (Inr x, w1) \<and> f x w1 = (Inr v, w')"
  by (auto simp: then_do_def split: prod.splits sum.splits)

lemma try_except_Inr:
  "try_except m h w = (Inr v, w') \<Longrightarrow>
   m w = (Inr v, w') \<or> (\<exists>e w1. m w = (Inl e, w1) \<and> is_Exception e \<and> h e w1 = (Inr v, w'))"
  by (auto simp: try_except_def split: prod.splits sum.splits if_splits)

lemma try_except_Inl:
  "fst (try_except m h w) = Inl e \<Longrightarrow>
   fst (m w) = Inl e \<and> \<not> is_Exception e \<or> (\<exists>e' w1. fst (h e' w1) = Inl e)"
  by (auto simp: try_except_def split: prod.splits sum.splits if_splits)

text \<open>The handlers and the branch for a missing credential: a \<open>print\<close>, then \<open>None\<close>.\<close>

lemma print_then_none:
  "then_do (print ev line) (\<lambda>_. ret JNull) w = (Inr v, w') \<Longrightarrow> v = JNull"
  by (auto simp: then_do_def print_def ret_def raise_def split: option.splits)

lemma print_then_none_works:
  "prints_work ev \<Longrightarrow> then_do (print ev line) (\<lambda>_. ret JNull) w = (Inr JNull, w)"
  by (simp add: prints_work_def then_do_def print_def ret_def)

subsection \<open>What an \<open>except Exception\<close> catches\<close>

lemma only_exceptions_ret: "only_exceptions (ret v)"
  by (simp add: only_exceptions_def ret_def)

lemma only_exceptions_then_do:
  "only_exceptions m \<Longrightarrow> (\<And>x. only_exceptions (f x)) \<Longrightarrow> only_exceptions (then_do m f)"
  unfolding only_exceptions_def then_do_def
  by (auto split: prod.splits sum.splits) (metis fst_conv)+

lemma only_exceptions_for_loop:
  assumes "\<And>x. only_exceptions (body x)"
  shows "only_exceptions (for_loop xs body)"
proof (induction xs)
  case Nil
  show ?case by (simp add: only_exceptions_ret)
next
  case (Cons x xs)
  have "for_loop (x # xs) body =
      then_do (body x) (\<lambda>res. case res of Some v \<Rightarrow> ret (Some v) | None \<Rightarrow> for_loop xs body)"
    by (auto simp: then_do_def ret_def fun_eq_iff split: prod.splits sum.splits option.splits)
  moreover have "only_exceptions (case res of Some v \<Rightarrow> ret (Some v) | None \<Rightarrow> for_loop xs body)"
    for res :: "'b option"
    by (cases res) (simp_all add: only_exceptions_ret Cons.IH)
  then have "only_exceptions
      (then_do (body x) (\<lambda>res. case res of Some v \<Rightarrow> ret (Some v) | None \<Rightarrow> for_loop xs body))"
    by (rule only_exceptions_then_do [OF assms])
  ultimately show ?case by simp
qed

lemma only_exceptions_if: "only_exceptions m \<Longrightarrow> only_exceptions n \<Longrightarrow> only_exceptions (if c then m else n)"
  by simp

lemma only_exceptions_response_json: "only_exceptions (lift (response_json r))"
  by (auto simp: only_exceptions_def lift_def response_json_def split: option.splits)

lemma only_exceptions_json_get: "only_exceptions (lift (json_get obj key dflt))"
  by (auto simp: only_exceptions_def lift_def json_get_def split: json.splits)

lemma only_exceptions_set_progress: "only_exceptions (set_progress gid v)"
  by (auto simp: only_exceptions_def set_progress_def update_record_def store_record_def
      split: option.splits)

lemma only_exceptions_http: "catchable h \<Longrightarrow> only_exceptions (http h)"
  by (auto simp: only_exceptions_def catchable_def http_def raise_def ret_def split: http_outcome.splits)

lemma only_exceptions_print: "prints_work ev \<Longrightarrow> only_exceptions (print ev line)"
  by (simp add: only_exceptions_def prints_work_def print_def ret_def)

lemma only_exceptions_sleep: "not_cancelled ev \<Longrightarrow> only_exceptions (asyncio_sleep ev line i)"
  by (simp add: only_exceptions_def not_cancelled_def asyncio_sleep_def ret_def)

lemma not_cancelledD:
  assumes "not_cancelled ev"
  shows "catchable (luma_post ev)" "catchable (luma_get ev i)" "catchable (replicate_post ev)"
    "catchable (replicate_get ev i)" "catchable (huggingface_post ev)"
  using assms by (simp_all add: not_cancelled_def)

lemma try_except_total:
  assumes "only_exceptions m" and "\<And>e w. \<exists>v. fst (h e w) = Inr v"
  shows "\<exists>v. fst (try_except m h w) = Inr v"
proof (cases "m w")
  case (Pair res w1)
  show ?thesis
  proof (cases res)
    case (Inr v)
    with Pair show ?thesis by (simp add: try_except_def)
  next
    case (Inl e)
    with Pair have "fst (m w) = Inl e"
      by simp
    with assms(1) have "is_Exception e"
      unfolding only_exceptions_def by blast
    with Pair Inl assms(2) [of e w1] show ?thesis
      by (simp add: try_except_def)
  qed
qed

subsection \<open>Reading a run backwards\<close>

text \<open>When a sequence of statements has returned, each of them has.\<close>

lemma ret_InrD: "ret x w = (Inr v, w') \<Longrightarrow> v = x \<and> w' = w"
  by (simp add: ret_def)

lemma sleep_then_InrD:
  "then_do (asyncio_sleep ev line i) f w = (Inr v, w') \<Longrightarrow> f () w = (Inr v, w')"
  by (auto simp: then_do_def asyncio_sleep_def ret_def raise_def split: option.splits)

lemma print_then_InrD:
  "then_do (print ev line) f w = (Inr v, w') \<Longrightarrow> f () w = (Inr v, w')"
  by (auto simp: then_do_def print_def ret_def raise_def split: option.splits)

lemma http_then_InrD:
  "then_do (http h) f w = (Inr v, w') \<Longrightarrow> \<exists>r. h = Returns r \<and> f r w = (Inr v, w')"
  by (auto simp: then_do_def http_def ret_def raise_def split: http_outcome.splits)

lemma response_json_then_InrD:
  "then_do (lift (response_json r)) f w = (Inr v, w') \<Longrightarrow>
   \<exists>j. json_body r = Some j \<and> f j w = (Inr v, w')"
  by (auto simp: then_do_def lift_def response_json_def split: option.splits)

lemma json_get_then_InrD:
  "then_do (lift (json_get obj key dflt)) f w = (Inr v, w') \<Longrightarrow>
   \<exists>kvs. obj = JDict kvs \<and>
     f (case map_of kvs key of None \<Rightarrow> dflt | Some x \<Rightarrow> x) w = (Inr v, w')"
  by (auto simp: then_do_def lift_def json_get_def split: json.splits)

lemma set_progress_then_InrD:
  "then_do (set_progress gid p) f w = (Inr v, w') \<Longrightarrow> \<exists>w1. f () w1 = (Inr v, w')"
  by (auto simp: then_do_def split: prod.splits sum.splits)

subsection \<open>One poll\<close>

lemma luma_poll_body_Some:
  assumes "luma_poll_body ev gid i w = (Inr (Some v), w')"
  shows "\<exists>r kvs. luma_get ev i = Returns r \<and> status_code r = 200 \<and>
       json_body r = Some (JDict kvs) \<and>
       (map_of kvs ''state'' = Some (JStr ''failed'') \<and> v = JNull \<or>
        map_of kvs ''state'' = Some (JStr ''completed'') \<and>
        (\<exists>assets. map_of kvs ''assets'' = Some (JDict assets) \<and>
           map_of assets ''video'' = Some v \<and> truthy v))"
proof -
  from assms obtain r where r: "luma_get ev i = Returns r" and ok: "status_code r = 200"
    and 1: "then_do (lift (response_json r)) (\<lambda>status_data.
         then_do (lift (json_get status_data ''state'' JNull)) (\<lambda>state.
           if state = JStr ''completed'' then
             then_do (set_progress gid 90) (\<lambda>_.
             then_do (lift (json_get status_data ''assets'' (JDict []))) (\<lambda>assets.
             then_do (lift (json_get assets ''video'' JNull)) (\<lambda>url.
               if truthy url then then_do (print ev 232) (\<lambda>_. ret (Some url))
               else ret None)))
           else if state = JStr ''failed'' then
             then_do (print ev 235) (\<lambda>_. ret (Some JNull))
           else ret None)) w = (Inr (Some v), w')"
    unfolding luma_poll_body_def
    by (auto dest!: sleep_then_InrD http_then_InrD simp: ret_def split: if_splits)
  from response_json_then_InrD [OF 1] obtain j where j: "json_body r = Some j"
    and 2: "then_do (lift (json_get j ''state'' JNull)) (\<lambda>state.
           if state = JStr ''completed'' then
             then_do (set_progress gid 90) (\<lambda>_.
             then_do (lift (json_get j ''assets'' (JDict []))) (\<lambda>assets.
             then_do (lift (json_get assets ''video'' JNull)) (\<lambda>url.
               if truthy url then then_do (print ev 232) (\<lambda>_. ret (Some url))
               else ret None)))
           else if state = JStr ''failed'' then
             then_do (print ev 235) (\<lambda>_. ret (Some JNull))
           else ret None) w = (Inr (Some v), w')"
    by blast
  from json_get_then_InrD [OF 2] obtain kvs where kvs: "j = JDict kvs"
    and 3: "(if (case map_of kvs ''state'' of None \<Rightarrow> JNull | Some x \<Rightarrow> x) = JStr ''completed'' then
             then_do (set_progress gid 90) (\<lambda>_.
             then_do (lift (json_get j ''assets'' (JDict []))) (\<lambda>assets.
             then_do (lift (json_get assets ''video'' JNull)) (\<lambda>url.
               if truthy url then then_do (print ev 232) (\<lambda>_. ret (Some url))
               else ret None)))
           else if (case map_of kvs ''state'' of None \<Rightarrow> JNull | Some x \<Rightarrow> x) = JStr ''failed'' then
             then_do (print ev 235) (\<lambda>_. ret (Some JNull))
           else ret None) w = (Inr (Some v), w')"
    by blast
  define state where "state = (case map_of kvs ''state'' of None \<Rightarrow> JNull | Some x \<Rightarrow> x)"
  have st: "map_of kvs ''state'' = Some (JStr s)" if "state = JStr s" for s
    using that unfolding state_def by (cases "map_of kvs ''state''") simp_all
  consider "state = JStr ''completed''" | "state = JStr ''failed''"
    using 3 unfolding state_def [symmetric] by (auto simp: ret_def split: if_splits)
  then have "map_of kvs ''state'' = Some (JStr ''failed'') \<and> v = JNull \<or>
        map_of kvs ''state'' = Some (JStr ''completed'') \<and>
        (\<exists>assets. map_of kvs ''assets'' = Some (JDict assets) \<and>
           map_of assets ''video'' = Some v \<and> truthy v)"
  proof cases
    case 1
    with 3 have "then_do (set_progress gid 90) (\<lambda>_.
             then_do (lift (json_get j ''assets'' (JDict []))) (\<lambda>assets.
             then_do (lift (json_get assets ''video'' JNull)) (\<lambda>url.
               if truthy url then then_do (print ev 232) (\<lambda>_. ret (Some url))
               else ret None))) w = (Inr (Some v), w')"
      unfolding state_def [symmetric] by simp
    from set_progress_then_InrD [OF this] obtain w1 where
      "then_do (lift (json_get j ''assets'' (JDict []))) (\<lambda>assets.
             then_do (lift (json_get assets ''video'' JNull)) (\<lambda>url.
               if truthy url then then_do (print ev 232) (\<lambda>_. ret (Some url))
               else ret None)) w1 = (Inr (Some v), w')"
      by blast
    from json_get_then_InrD [OF this] kvs have
      "then_do (lift (json_get (case map_of kvs ''assets'' of None \<Rightarrow> JDict [] | Some x \<Rightarrow> x)
             ''video'' JNull)) (\<lambda>url.
               if truthy url then then_do (print ev 232) (\<lambda>_. ret (Some url))
               else ret None) w1 = (Inr (Some v), w')"
      by auto
    from json_get_then_InrD [OF this] obtain assets where
      a: "(case map_of kvs ''assets'' of None \<Rightarrow> JDict [] | Some x \<Rightarrow> x) = JDict assets"
      and 4: "(if truthy (case map_of assets ''video'' of None \<Rightarrow> JNull | Some x \<Rightarrow> x)
           then then_do (print ev 232)
                  (\<lambda>_. ret (Some (case map_of assets ''video'' of None \<Rightarrow> JNull | Some x \<Rightarrow> x)))
           else ret None) w1 = (Inr (Some v), w')"
      by blast
    from 4 have t: "truthy (case map_of assets ''video'' of None \<Rightarrow> JNull | Some x \<Rightarrow> x)"
      and "then_do (print ev 232)
             (\<lambda>_. ret (Some (case map_of assets ''video'' of None \<Rightarrow> JNull | Some x \<Rightarrow> x))) w1
           = (Inr (Some v), w')"
      by (auto simp: ret_def split: if_splits)
    from print_then_InrD [OF this(2)]
    have v: "v = (case map_of assets ''video'' of None \<Rightarrow> JNull | Some x \<Rightarrow> x)"
      by (simp add: ret_def)
    from t v have video: "map_of assets ''video'' = Some v" "truthy v"
      by (cases "map_of assets ''video''"; simp)+
    from video(1) a have "map_of kvs ''assets'' = Some (JDict assets)"
      by (cases "map_of kvs ''assets''") auto
    with video st [OF 1] show ?thesis by blast
  next
    case 2
    with 3 have "then_do (print ev 235) (\<lambda>_. ret (Some JNull)) w = (Inr (Some v), w')"
      unfolding state_def [symmetric] by simp
    from print_then_InrD [OF this] have "v = JNull"
      by (simp add: ret_def)
    with st [OF 2] show ?thesis by blast
  qed
  with r ok j kvs show ?thesis by blast
qed

lemma luma_poll_body_None:
  assumes "luma_poll_body ev gid i w = (Inr None, w')"
  shows "inconclusive ''state'' ''completed'' luma_no_video (luma_get ev i)"
proof -
  from assms obtain r where r: "luma_get ev i = Returns r"
    and 1: "(if status_code r = 200 then
         then_do (lift (response_json r)) (\<lambda>status_data.
         then_do (lift (json_get status_data ''state'' JNull)) (\<lambda>state.
           if state = JStr ''completed'' then
             then_do (set_progress gid 90) (\<lambda>_.
             then_do (lift (json_get status_data ''assets'' (JDict []))) (\<lambda>assets.
             then_do (lift (json_get assets ''video'' JNull)) (\<lambda>url.
               if truthy url then then_do (print ev 232) (\<lambda>_. ret (Some url))
               else ret None)))
           else if state = JStr ''failed'' then
             then_do (print ev 235) (\<lambda>_. ret (Some JNull))
           else ret None))
       else ret None) w = (Inr None, w')"
    unfolding luma_poll_body_def
    by (auto dest!: sleep_then_InrD http_then_InrD)
  show ?thesis
  proof (cases "status_code r = 200")
    case False
    with r show ?thesis by (simp add: inconclusive_def)
  next
    case True
    with 1 response_json_then_InrD obtain j where j: "json_body r = Some j"
      and 2: "then_do (lift (json_get j ''state'' JNull)) (\<lambda>state.
           if state = JStr ''completed'' then
             then_do (set_progress gid 90) (\<lambda>_.
             then_do (lift (json_get j ''assets'' (JDict []))) (\<lambda>assets.
             then_do (lift (json_get assets ''video'' JNull)) (\<lambda>url.
               if truthy url then then_do (print ev 232) (\<lambda>_. ret (Some url))
               else ret None)))
           else if state = JStr ''failed'' then
             then_do (print ev 235) (\<lambda>_. ret (Some JNull))
           else ret None) w = (Inr None, w')"
      by (auto dest!: response_json_then_InrD)
    from json_get_then_InrD [OF 2] obtain kvs where kvs: "j = JDict kvs"
      and 3: "(if (case map_of kvs ''state'' of None \<Rightarrow> JNull | Some x \<Rightarrow> x) = JStr ''completed'' then
             then_do (set_progress gid 90) (\<lambda>_.
             then_do (lift (json_get j ''assets'' (JDict []))) (\<lambda>assets.
             then_do (lift (json_get assets ''video'' JNull)) (\<lambda>url.
               if truthy url then then_do (print ev 232) (\<lambda>_. ret (Some url))
               else ret None)))
           else if (case map_of kvs ''state'' of None \<Rightarrow> JNull | Some x \<Rightarrow> x) = JStr ''failed'' then
             then_do (print ev 235) (\<lambda>_. ret (Some JNull))
           else ret None) w = (Inr None, w')"
      by blast
    define state where "state = (case map_of kvs ''state'' of None \<Rightarrow> JNull | Some x \<Rightarrow> x)"
    have st: "map_of kvs ''state'' = Some (JStr s) \<longleftrightarrow> state = JStr s" for s
      unfolding state_def by (cases "map_of kvs ''state''") simp_all
    have "state \<noteq> JStr ''failed''"
    proof
      assume "state = JStr ''failed''"
      with 3 have "then_do (print ev 235) (\<lambda>_. ret (Some JNull)) w = (Inr None, w')"
        unfolding state_def [symmetric] by simp
      from print_then_InrD [OF this] show False
        by (simp add: ret_def)
    qed
    moreover have "luma_no_video kvs" if c: "state = JStr ''completed''"
    proof -
      from 3 c have "then_do (set_progress gid 90) (\<lambda>_.
             then_do (lift (json_get j ''assets'' (JDict []))) (\<lambda>assets.
             then_do (lift (json_get assets ''video'' JNull)) (\<lambda>url.
               if truthy url then then_do (print ev 232) (\<lambda>_. ret (Some url))
               else ret None))) w = (Inr None, w')"
        unfolding state_def [symmetric] by simp
      from set_progress_then_InrD [OF this] obtain w1 where
        "then_do (lift (json_get j ''assets'' (JDict []))) (\<lambda>assets.
             then_do (lift (json_get assets ''video'' JNull)) (\<lambda>url.
               if truthy url then then_do (print ev 232) (\<lambda>_. ret (Some url))
               else ret None)) w1 = (Inr None, w')"
        by blast
      from json_get_then_InrD [OF this] kvs have
        "then_do (lift (json_get (case map_of kvs ''assets'' of None \<Rightarrow> JDict [] | Some x \<Rightarrow> x)
             ''video'' JNull)) (\<lambda>url.
               if truthy url then then_do (print ev 232) (\<lambda>_. ret (Some url))
               else ret None) w1 = (Inr None, w')"
        by auto
      from json_get_then_InrD [OF this] obtain assets where
        a: "(case map_of kvs ''assets'' of None \<Rightarrow> JDict [] | Some x \<Rightarrow> x) = JDict assets"
        and 4: "(if truthy (case map_of assets ''video'' of None \<Rightarrow> JNull | Some x \<Rightarrow> x)
           then then_do (print ev 232)
                  (\<lambda>_. ret (Some (case map_of assets ''video'' of None \<Rightarrow> JNull | Some x \<Rightarrow> x)))
           else ret None) w1 = (Inr None, w')"
        by blast
      have "\<not> truthy (case map_of assets ''video'' of None \<Rightarrow> JNull | Some x \<Rightarrow> x)"
      proof
        assume "truthy (case map_of assets ''video'' of None \<Rightarrow> JNull | Some x \<Rightarrow> x)"
        with 4 have "then_do (print ev 232)
             (\<lambda>_. ret (Some (case map_of assets ''video'' of None \<Rightarrow> JNull | Some x \<Rightarrow> x))) w1
           = (Inr None, w')"
          by simp
        from print_then_InrD [OF this] show False
          by (simp add: ret_def)
      qed
      with a show ?thesis
        unfolding luma_no_video_def
        by (cases "map_of kvs ''assets''"; cases "map_of assets ''video''") auto
    qed
    ultimately show ?thesis
      using r True j kvs unfolding inconclusive_def by (auto simp: st)
  qed
qed

lemma replicate_output_Some:
  assumes "(case out of JList (first # rest) \<Rightarrow> then_do (print ev 306) (\<lambda>_. ret (Some first))
            | _ \<Rightarrow> ret None) w = (Inr (Some v), w')"
  shows "\<exists>rest. out = JList (v # rest)"
proof (cases out)
  case (JList xs)
  show ?thesis
  proof (cases xs)
    case Nil
    with JList assms show ?thesis by (simp add: ret_def)
  next
    case (Cons first rest)
    with JList assms have "then_do (print ev 306) (\<lambda>_. ret (Some first)) w = (Inr (Some v), w')"
      by simp
    from print_then_InrD [OF this] JList Cons show ?thesis
      by (simp add: ret_def)
  qed
qed (use assms in \<open>simp_all add: ret_def\<close>)

lemma replicate_output_None:
  assumes "(case out of JList (first # rest) \<Rightarrow> then_do (print ev 306) (\<lambda>_. ret (Some first))
            | _ \<Rightarrow> ret None) w = (Inr None, w')"
  shows "\<forall>first rest. out \<noteq> JList (first # rest)"
proof (intro allI notI)
  fix first rest assume "out = JList (first # rest)"
  with assms have "then_do (print ev 306) (\<lambda>_. ret (Some first)) w = (Inr None, w')"
    by simp
  from print_then_InrD [OF this] show False
    by (simp add: ret_def)
qed

lemma replicate_poll_body_Some:
  assumes "replicate_poll_body ev gid i w = (Inr (Some v), w')"
  shows "\<exists>r kvs. replicate_get ev i = Returns r \<and> status_code r = 200 \<and>
       json_body r = Some (JDict kvs) \<and>
       (map_of kvs ''status'' = Some (JStr ''failed'') \<and> v = JNull \<or>
        map_of kvs ''status'' = Some (JStr ''succeeded'') \<and>
        (\<exists>rest. map_of kvs ''output'' = Some (JList (v # rest))))"
proof -
  from assms obtain r where r: "replicate_get ev i = Returns r" and ok: "status_code r = 200"
    and 1: "then_do (lift (response_json r)) (\<lambda>status_data.
         then_do (lift (json_get status_data ''status'' JNull)) (\<lambda>state.
           if state = JStr ''succeeded'' then
             then_do (set_progress gid 90) (\<lambda>_.
             then_do (lift (json_get status_data ''output'' JNull)) (\<lambda>output.
               case output of
                 JList (first # rest) \<Rightarrow> then_do (print ev 306) (\<lambda>_. ret (Some first))
               | _ \<Rightarrow> ret None))
           else if state = JStr ''failed'' then
             then_do (print ev 309) (\<lambda>_. ret (Some JNull))
           else ret None)) w = (Inr (Some v), w')"
    unfolding replicate_poll_body_def
    by (auto dest!: sleep_then_InrD http_then_InrD simp: ret_def split: if_splits)
  from response_json_then_InrD [OF 1] obtain j where j: "json_body r = Some j"
    and 2: "then_do (lift (json_get j ''status'' JNull)) (\<lambda>state.
           if state = JStr ''succeeded'' then
             then_do (set_progress gid 90) (\<lambda>_.
             then_do (lift (json_get j ''output'' JNull)) (\<lambda>output.
               case output of
                 JList (first # rest) \<Rightarrow> then_do (print ev 306) (\<lambda>_. ret (Some first))
               | _ \<Rightarrow> ret None))
           else if state = JStr ''failed'' then
             then_do (print ev 309) (\<lambda>_. ret (Some JNull))
           else ret None) w = (Inr (Some v), w')"
    by blast
  from json_get_then_InrD [OF 2] obtain kvs where kvs: "j = JDict kvs"
    and 3: "(if (case map_of kvs ''status'' of None \<Rightarrow> JNull | Some x \<Rightarrow> x) = JStr ''succeeded'' then
             then_do (set_progress gid 90) (\<lambda>_.
             then_do (lift (json_get j ''output'' JNull)) (\<lambda>output.
               case output of
                 JList (first # rest) \<Rightarrow> then_do (print ev 306) (\<lambda>_. ret (Some first))
               | _ \<Rightarrow> ret None))
           else if (case map_of kvs ''status'' of None \<Rightarrow> JNull | Some x \<Rightarrow> x) = JStr ''failed'' then
             then_do (print ev 309) (\<lambda>_. ret (Some JNull))
           else ret None) w = (Inr (Some v), w')"
    by blast
  define state where "state = (case map_of kvs ''status'' of None \<Rightarrow> JNull | Some x \<Rightarrow> x)"
  have st: "map_of kvs ''status'' = Some (JStr s)" if "state = JStr s" for s
    using that unfolding state_def by (cases "map_of kvs ''status''") simp_all
  consider "state = JStr ''succeeded''" | "state = JStr ''failed''"
    using 3 unfolding state_def [symmetric] by (auto simp: ret_def split: if_splits)
  then have "map_of kvs ''status'' = Some (JStr ''failed'') \<and> v = JNull \<or>
        map_of kvs ''status'' = Some (JStr ''succeeded'') \<and>
        (\<exists>rest. map_of kvs ''output'' = Some (JList (v # rest)))"
  proof cases
    case 1
    with 3 have "then_do (set_progress gid 90) (\<lambda>_.
             then_do (lift (json_get j ''output'' JNull)) (\<lambda>output.
               case output of
                 JList (first # rest) \<Rightarrow> then_do (print ev 306) (\<lambda>_. ret (Some first))
               | _ \<Rightarrow> ret None)) w = (Inr (Some v), w')"
      unfolding state_def [symmetric] by simp
    from set_progress_then_InrD [OF this] obtain w1 where
      "then_do (lift (json_get j ''output'' JNull)) (\<lambda>output.
               case output of
                 JList (first # rest) \<Rightarrow> then_do (print ev 306) (\<lambda>_. ret (Some first))
               | _ \<Rightarrow> ret None) w1 = (Inr (Some v), w')"
      by blast
    from json_get_then_InrD [OF this] kvs have
      "(case (case map_of kvs ''output'' of None \<Rightarrow> JNull | Some x \<Rightarrow> x) of
                 JList (first # rest) \<Rightarrow> then_do (print ev 306) (\<lambda>_. ret (Some first))
               | _ \<Rightarrow> ret None) w1 = (Inr (Some v), w')"
      by auto
    from replicate_output_Some [OF this] obtain rest where
      "(case map_of kvs ''output'' of None \<Rightarrow> JNull | Some x \<Rightarrow> x) = JList (v # rest)"
      by blast
    then have "map_of kvs ''output'' = Some (JList (v # rest))"
      by (cases "map_of kvs ''output''") simp_all
    with st [OF 1] show ?thesis by blast
  next
    case 2
    with 3 have "then_do (print ev 309) (\<lambda>_. ret (Some JNull)) w = (Inr (Some v), w')"
      unfolding state_def [symmetric] by simp
    from print_then_InrD [OF this] have "v = JNull"
      by (simp add: ret_def)
    with st [OF 2] show ?thesis by blast
  qed
  with r ok j kvs show ?thesis by blast
qed

lemma replicate_poll_body_None:
  assumes "replicate_poll_body ev gid i w = (Inr None, w')"
  shows "inconclusive ''status'' ''succeeded'' replicate_no_output (replicate_get ev i)"
proof -
  from assms obtain r where r: "replicate_get ev i = Returns r"
    and 1: "(if status_code r = 200 then
         then_do (lift (response_json r)) (\<lambda>status_data.
         then_do (lift (json_get status_data ''status'' JNull)) (\<lambda>state.
           if state = JStr ''succeeded'' then
             then_do (set_progress gid 90) (\<lambda>_.
             then_do (lift (json_get status_data ''output'' JNull)) (\<lambda>output.
               case output of
                 JList (first # rest) \<Rightarrow> then_do (print ev 306) (\<lambda>_. ret (Some first))
               | _ \<Rightarrow> ret None))
           else if state = JStr ''failed'' then
             then_do (print ev 309) (\<lambda>_. ret (Some JNull))
           else ret None))
       else ret None) w = (Inr None, w')"
    unfolding replicate_poll_body_def
    by (auto dest!: sleep_then_InrD http_then_InrD)
  show ?thesis
  proof (cases "status_code r = 200")
    case False
    with r show ?thesis by (simp add: inconclusive_def)
  next
    case True
    with 1 obtain j where j: "json_body r = Some j"
      and 2: "then_do (lift (json_get j ''status'' JNull)) (\<lambda>state.
           if state = JStr ''succeeded'' then
             then_do (set_progress gid 90) (\<lambda>_.
             then_do (lift (json_get j ''output'' JNull)) (\<lambda>output.
               case output of
                 JList (first # rest) \<Rightarrow> then_do (print ev 306) (\<lambda>_. ret (Some first))
               | _ \<Rightarrow> ret None))
           else if state = JStr ''failed'' then
             then_do (print ev 309) (\<lambda>_. ret (Some JNull))
           else ret None) w = (Inr None, w')"
      by (auto dest!: response_json_then_InrD)
    from json_get_then_InrD [OF 2] obtain kvs where kvs: "j = JDict kvs"
      and 3: "(if (case map_of kvs ''status'' of None \<Rightarrow> JNull | Some x \<Rightarrow> x) = JStr ''succeeded'' then
             then_do (set_progress gid 90) (\<lambda>_.
             then_do (lift (json_get j ''output'' JNull)) (\<lambda>output.
               case output of
                 JList (first # rest) \<Rightarrow> then_do (print ev 306) (\<lambda>_. ret (Some first))
               | _ \<Rightarrow> ret None))
           else if (case map_of kvs ''status'' of None \<Rightarrow> JNull | Some x \<Rightarrow> x) = JStr ''failed'' then
             then_do (print ev 309) (\<lambda>_. ret (Some JNull))
           else ret None) w = (Inr None, w')"
      by blast
    define state where "state = (case map_of kvs ''status'' of None \<Rightarrow> JNull | Some x \<Rightarrow> x)"
    have st: "map_of kvs ''status'' = Some (JStr s) \<longleftrightarrow> state = JStr s" for s
      unfolding state_def by (cases "map_of kvs ''status''") simp_all
    have "state \<noteq> JStr ''failed''"
    proof
      assume "state = JStr ''failed''"
      with 3 have "then_do (print ev 309) (\<lambda>_. ret (Some JNull)) w = (Inr None, w')"
        unfolding state_def [symmetric] by simp
      from print_then_InrD [OF this] show False
        by (simp add: ret_def)
    qed
    moreover have "replicate_no_output kvs" if c: "state = JStr ''succeeded''"
    proof -
      from 3 c have "then_do (set_progress gid 90) (\<lambda>_.
             then_do (lift (json_get j ''output'' JNull)) (\<lambda>output.
               case output of
                 JList (first # rest) \<Rightarrow> then_do (print ev 306) (\<lambda>_. ret (Some first))
               | _ \<Rightarrow> ret None)) w = (Inr None, w')"
        unfolding state_def [symmetric] by simp
      from set_progress_then_InrD [OF this] obtain w1 where
        "then_do (lift (json_get j ''output'' JNull)) (\<lambda>output.
               case output of
                 JList (first # rest) \<Rightarrow> then_do (print ev 306) (\<lambda>_. ret (Some first))
               | _ \<Rightarrow> ret None) w1 = (Inr None, w')"
        by blast
      from json_get_then_InrD [OF this] kvs have
        "(case (case map_of kvs ''output'' of None \<Rightarrow> JNull | Some x \<Rightarrow> x) of
                 JList (first # rest) \<Rightarrow> then_do (print ev 306) (\<lambda>_. ret (Some first))
               | _ \<Rightarrow> ret None) w1 = (Inr None, w')"
        by auto
      from replicate_output_None [OF this] show ?thesis
        unfolding replicate_no_output_def
        by (auto split: option.splits json.splits list.splits)
    qed
    ultimately show ?thesis
      using r True j kvs unfolding inconclusive_def by (auto simp: st)
  qed
qed

subsection \<open>Kinds of answers exclude each other\<close>

lemma luma_video_conclusive:
  assumes "h = Returns r" "status_code r = 200" "json_body r = Some (JDict kvs)"
    "map_of kvs ''state'' = Some (JStr ''completed'')"
    "map_of kvs ''assets'' = Some (JDict assets)" "map_of assets ''video'' = Some v" "truthy v"
  shows "\<not> inconclusive ''state'' ''completed'' luma_no_video h \<and>
     \<not> poll_fails ''state'' ''completed'' luma_bad_assets h"
  using assms by (simp add: inconclusive_def poll_fails_def luma_no_video_def luma_bad_assets_def)

lemma replicate_output_conclusive:
  assumes "h = Returns r" "status_code r = 200" "json_body r = Some (JDict kvs)"
    "map_of kvs ''status'' = Some (JStr ''succeeded'')"
    "map_of kvs ''output'' = Some (JList (v # rest))"
  shows "\<not> inconclusive ''status'' ''succeeded'' replicate_no_output h \<and>
     \<not> poll_fails ''status'' ''succeeded'' (\<lambda>kvs. False) h"
  using assms by (simp add: inconclusive_def poll_fails_def replicate_no_output_def)

lemma luma_inconclusive_not_fails:
  "inconclusive ''state'' ''completed'' luma_no_video h \<Longrightarrow>
   \<not> poll_fails ''state'' ''completed'' luma_bad_assets h"
  by (auto simp: inconclusive_def poll_fails_def luma_no_video_def luma_bad_assets_def
      split: http_outcome.splits option.splits json.splits)

lemma replicate_inconclusive_not_fails:
  "inconclusive ''status'' ''succeeded'' replicate_no_output h \<Longrightarrow>
   \<not> poll_fails ''status'' ''succeeded'' (\<lambda>kvs. False) h"
  by (auto simp: inconclusive_def poll_fails_def split: http_outcome.splits option.splits
      json.splits)

subsection \<open>One attempt\<close>

lemma request_failed_simps:
  "request_failed ok (Raises e)"
  "request_failed ok (Returns r) \<longleftrightarrow> status_code r \<noteq> ok"
  by (simp_all add: request_failed_def)

lemma malformed_simps:
  "\<not> malformed (Raises e)"
  "malformed (Returns r) \<longleftrightarrow> (\<forall>kvs. json_body r \<noteq> Some (JDict kvs))"
  by (auto simp: malformed_def split: option.splits json.splits)

lemma returned_InrD:
  "(case returned of Some v \<Rightarrow> ret v | None \<Rightarrow> ret JNull) w = (Inr v, w') \<Longrightarrow> v \<noteq> JNull \<Longrightarrow>
   returned = Some v"
  by (cases returned) (simp_all add: ret_def)

lemma luma_try_Inr:
  assumes "luma_try ev gid w = (Inr v, w')" and "v \<noteq> JNull"
  shows "\<not> request_failed 201 (luma_post ev) \<and> \<not> malformed (luma_post ev) \<and>
     (\<exists>i < 30. (\<exists>w1. luma_poll_body ev gid i w1 = (Inr (Some v), w')) \<and>
        (\<forall>j < i. \<exists>wa wb. luma_poll_body ev gid j wa = (Inr None, wb)))"
proof -
  from assms(1) obtain w1 response where p: "luma_post ev = Returns response"
    and 1: "(if status_code response = 201 then
         then_do (lift (response_json response)) (\<lambda>result.
         then_do (lift (json_get result ''id'' JNull)) (\<lambda>generation_id_luma.
         then_do (set_progress gid 75) (\<lambda>_.
         then_do (for_loop [0..<30] (luma_poll_body ev gid)) (\<lambda>returned.
           case returned of Some v \<Rightarrow> ret v | None \<Rightarrow> ret JNull))))
       else then_do (print ev 238) (\<lambda>_. ret JNull)) w1 = (Inr v, w')"
    unfolding luma_try_def
    by (auto dest!: set_progress_then_InrD print_then_InrD http_then_InrD)
  have ok: "status_code response = 201"
  proof (rule ccontr)
    assume "status_code response \<noteq> 201"
    with 1 have "then_do (print ev 238) (\<lambda>_. ret JNull) w1 = (Inr v, w')"
      by simp
    from print_then_none [OF this] assms(2) show False by simp
  qed
  with 1 have "then_do (lift (response_json response)) (\<lambda>result.
         then_do (lift (json_get result ''id'' JNull)) (\<lambda>generation_id_luma.
         then_do (set_progress gid 75) (\<lambda>_.
         then_do (for_loop [0..<30] (luma_poll_body ev gid)) (\<lambda>returned.
           case returned of Some v \<Rightarrow> ret v | None \<Rightarrow> ret JNull)))) w1 = (Inr v, w')"
    by simp
  from response_json_then_InrD [OF this] obtain result where j: "json_body response = Some result"
    and "then_do (lift (json_get result ''id'' JNull)) (\<lambda>generation_id_luma.
         then_do (set_progress gid 75) (\<lambda>_.
         then_do (for_loop [0..<30] (luma_poll_body ev gid)) (\<lambda>returned.
           case returned of Some v \<Rightarrow> ret v | None \<Rightarrow> ret JNull))) w1 = (Inr v, w')"
    by blast
  from json_get_then_InrD [OF this(2)] obtain kvs where kvs: "result = JDict kvs"
    and "then_do (set_progress gid 75) (\<lambda>_.
         then_do (for_loop [0..<30] (luma_poll_body ev gid)) (\<lambda>returned.
           case returned of Some v \<Rightarrow> ret v | None \<Rightarrow> ret JNull)) w1 = (Inr v, w')"
    by blast
  from set_progress_then_InrD [OF this(2)] obtain w2 where
    "then_do (for_loop [0..<30] (luma_poll_body ev gid)) (\<lambda>returned.
           case returned of Some v \<Rightarrow> ret v | None \<Rightarrow> ret JNull) w2 = (Inr v, w')"
    by blast
  from then_do_InrD [OF this] obtain returned w3 where
    loop: "for_loop [0..<30] (luma_poll_body ev gid) w2 = (Inr returned, w3)"
    and "(case returned of Some v \<Rightarrow> ret v | None \<Rightarrow> ret JNull) w3 = (Inr v, w')"
    by blast
  from returned_InrD [OF this(2) assms(2)] this(2) have "returned = Some v" "w3 = w'"
    by (simp_all add: ret_def)
  with loop have "for_loop [0..<30] (luma_poll_body ev gid) w2 = (Inr (Some v), w')"
    by simp
  from for_loop_polls [OF this] p ok j kvs show ?thesis
    by (simp add: request_failed_simps malformed_simps)
qed

lemma replicate_try_Inr:
  assumes "replicate_try ev gid w = (Inr v, w')" and "v \<noteq> JNull"
  shows "\<not> request_failed 201 (replicate_post ev) \<and> \<not> malformed (replicate_post ev) \<and>
     (\<exists>i < 20. (\<exists>w1. replicate_poll_body ev gid i w1 = (Inr (Some v), w')) \<and>
        (\<forall>j < i. \<exists>wa wb. replicate_poll_body ev gid j wa = (Inr None, wb)))"
proof -
  from assms(1) obtain w1 response where p: "replicate_post ev = Returns response"
    and 1: "(if status_code response = 201 then
         then_do (lift (response_json response)) (\<lambda>result.
         then_do (lift (json_get result ''id'' JNull)) (\<lambda>prediction_id.
         then_do (set_progress gid 75) (\<lambda>_.
         then_do (for_loop [0..<20] (replicate_poll_body ev gid)) (\<lambda>returned.
           case returned of Some v \<Rightarrow> ret v | None \<Rightarrow> ret JNull))))
       else then_do (print ev 313) (\<lambda>_. ret JNull)) w1 = (Inr v, w')"
    unfolding replicate_try_def
    by (auto dest!: set_progress_then_InrD print_then_InrD http_then_InrD)
  have ok: "status_code response = 201"
  proof (rule ccontr)
    assume "status_code response \<noteq> 201"
    with 1 have "then_do (print ev 313) (\<lambda>_. ret JNull) w1 = (Inr v, w')"
      by simp
    from print_then_none [OF this] assms(2) show False by simp
  qed
  with 1 have "then_do (lift (response_json response)) (\<lambda>result.
         then_do (lift (json_get result ''id'' JNull)) (\<lambda>prediction_id.
         then_do (set_progress gid 75) (\<lambda>_.
         then_do (for_loop [0..<20] (replicate_poll_body ev gid)) (\<lambda>returned.
           case returned of Some v \<Rightarrow> ret v | None \<Rightarrow> ret JNull)))) w1 = (Inr v, w')"
    by simp
  from response_json_then_InrD [OF this] obtain result where j: "json_body response = Some result"
    and "then_do (lift (json_get result ''id'' JNull)) (\<lambda>prediction_id.
         then_do (set_progress gid 75) (\<lambda>_.
         then_do (for_loop [0..<20] (replicate_poll_body ev gid)) (\<lambda>returned.
           case returned of Some v \<Rightarrow> ret v | None \<Rightarrow> ret JNull))) w1 = (Inr v, w')"
    by blast
  from json_get_then_InrD [OF this(2)] obtain kvs where kvs: "result = JDict kvs"
    and "then_do (set_progress gid 75) (\<lambda>_.
         then_do (for_loop [0..<20] (replicate_poll_body ev gid)) (\<lambda>returned.
           case returned of Some v \<Rightarrow> ret v | None \<Rightarrow> ret JNull)) w1 = (Inr v, w')"
    by blast
  from set_progress_then_InrD [OF this(2)] obtain w2 where
    "then_do (for_loop [0..<20] (replicate_poll_body ev gid)) (\<lambda>returned.
           case returned of Some v \<Rightarrow> ret v | None \<Rightarrow> ret JNull) w2 = (Inr v, w')"
    by blast
  from then_do_InrD [OF this] obtain returned w3 where
    loop: "for_loop [0..<20] (replicate_poll_body ev gid) w2 = (Inr returned, w3)"
    and "(case returned of Some v \<Rightarrow> ret v | None \<Rightarrow> ret JNull) w3 = (Inr v, w')"
    by blast
  from returned_InrD [OF this(2) assms(2)] this(2) have "returned = Some v" "w3 = w'"
    by (simp_all add: ret_def)
  with loop have "for_loop [0..<20] (replicate_poll_body ev gid) w2 = (Inr (Some v), w')"
    by simp
  from for_loop_polls [OF this] p ok j kvs show ?thesis
    by (simp add: request_failed_simps malformed_simps)
qed

lemma huggingface_try_Inr:
  assumes "huggingface_try ev gid w = (Inr v, w')" and "v \<noteq> JNull"
  shows "v = JStr huggingface_placeholder \<and>
    (\<exists>r. huggingface_post ev = Returns r \<and> status_code r = 200 \<and> length (content r) > 1000)"
proof -
  from assms(1) obtain w1 response where p: "huggingface_post ev = Returns response"
    and 1: "(if status_code response = 200 then
         (let video_bytes = content response
          in if length video_bytes > 1000
             then then_do (print ev 364) (\<lambda>_. ret (JStr huggingface_placeholder))
             else ret JNull)
       else then_do (print ev 367) (\<lambda>_. ret JNull)) w1 = (Inr v, w')"
    unfolding huggingface_try_def
    by (auto dest!: set_progress_then_InrD print_then_InrD http_then_InrD)
  have ok: "status_code response = 200"
  proof (rule ccontr)
    assume "status_code response \<noteq> 200"
    with 1 have "then_do (print ev 367) (\<lambda>_. ret JNull) w1 = (Inr v, w')"
      by simp
    from print_then_none [OF this] assms(2) show False by simp
  qed
  have long: "length (content response) > 1000"
  proof (rule ccontr)
    assume "\<not> length (content response) > 1000"
    with 1 ok assms(2) show False by (simp add: ret_def)
  qed
  with 1 ok have "then_do (print ev 364) (\<lambda>_. ret (JStr huggingface_placeholder)) w1 = (Inr v, w')"
    by simp
  from print_then_InrD [OF this] have "v = JStr huggingface_placeholder"
    by (simp add: ret_def)
  with p ok long show ?thesis by blast
qed

text \<open>What each adapter returns is \<open>None\<close> unless its \<open>try\<close> block returned something else.\<close>

lemma luma_adapter_Inr:
  assumes "fst (generate_with_luma_dream_machine cfg ev gid w) = Inr v" and "v \<noteq> JNull"
  shows "\<exists>w'. luma_try ev gid w = (Inr v, w')"
proof (cases "configured (LUMA_API_KEY cfg)")
  case False
  with assms(1) obtain w' where "then_do (print ev 179) (\<lambda>_. ret JNull) w = (Inr v, w')"
    unfolding generate_with_luma_dream_machine_def
    by (cases "then_do (print ev 179) (\<lambda>_. ret JNull) w") simp
  from print_then_none [OF this] assms(2) show ?thesis by simp
next
  case True
  with assms(1) obtain w' where
    "try_except (luma_try ev gid) (\<lambda>e. then_do (print ev 241) (\<lambda>_. ret JNull)) w = (Inr v, w')"
    unfolding generate_with_luma_dream_machine_def
    by (cases "try_except (luma_try ev gid) (\<lambda>e. then_do (print ev 241) (\<lambda>_. ret JNull)) w") simp
  from try_except_Inr [OF this] assms(2) show ?thesis
    by (auto dest: print_then_none)
qed

lemma replicate_adapter_Inr:
  assumes "fst (generate_with_replicate cfg ev gid w) = Inr v" and "v \<noteq> JNull"
  shows "\<exists>w'. replicate_try ev gid w = (Inr v, w')"
proof (cases "configured (REPLICATE_API_TOKEN cfg)")
  case False
  with assms(1) obtain w' where "then_do (print ev 249) (\<lambda>_. ret JNull) w = (Inr v, w')"
    unfolding generate_with_replicate_def
    by (cases "then_do (print ev 249) (\<lambda>_. ret JNull) w") simp
  from print_then_none [OF this] assms(2) show ?thesis by simp
next
  case True
  with assms(1) obtain w' where
    "try_except (replicate_try ev gid) (\<lambda>e. then_do (print ev 316) (\<lambda>_. ret JNull)) w = (Inr v, w')"
    unfolding generate_with_replicate_def
    by (cases "try_except (replicate_try ev gid) (\<lambda>e. then_do (print ev 316) (\<lambda>_. ret JNull)) w")
       simp
  from try_except_Inr [OF this] assms(2) show ?thesis
    by (auto dest: print_then_none)
qed

lemma huggingface_adapter_Inr:
  assumes "fst (generate_with_huggingface cfg ev gid w) = Inr v" and "v \<noteq> JNull"
  shows "\<exists>w'. huggingface_try ev gid w = (Inr v, w')"
proof (cases "configured (HUGGINGFACE_API_KEY cfg)")
  case False
  with assms(1) obtain w' where "then_do (print ev 324) (\<lambda>_. ret JNull) w = (Inr v, w')"
    unfolding generate_with_huggingface_def
    by (cases "then_do (print ev 324) (\<lambda>_. ret JNull) w") simp
  from print_then_none [OF this] assms(2) show ?thesis by simp
next
  case True
  with assms(1) obtain w' where
    "try_except (huggingface_try ev gid) (\<lambda>e. then_do (print ev 370) (\<lambda>_. ret JNull)) w = (Inr v, w')"
    unfolding generate_with_huggingface_def
    by (cases "try_except (huggingface_try ev gid) (\<lambda>e. then_do (print ev 370) (\<lambda>_. ret JNull)) w")
       simp
  from try_except_Inr [OF this] assms(2) show ?thesis
    by (auto dest: print_then_none)
qed

subsection \<open>What can leave an adapter\<close>

lemma luma_poll_body_only_exceptions:
  assumes p: "prints_work ev" and c: "not_cancelled ev"
  shows "only_exceptions (luma_poll_body ev gid i)"
  unfolding luma_poll_body_def
  by (intro only_exceptions_then_do only_exceptions_if only_exceptions_ret
      only_exceptions_sleep [OF c] only_exceptions_http not_cancelledD(2) [OF c]
      only_exceptions_response_json only_exceptions_json_get only_exceptions_set_progress
      only_exceptions_print [OF p])

lemma replicate_poll_body_only_exceptions:
  assumes p: "prints_work ev" and c: "not_cancelled ev"
  shows "only_exceptions (replicate_poll_body ev gid i)"
proof -
  have out: "only_exceptions
      (case out of JList (first # rest) \<Rightarrow> then_do (print ev 306) (\<lambda>_. ret (Some first))
       | _ \<Rightarrow> ret None)" for out
    by (auto intro!: only_exceptions_then_do only_exceptions_ret only_exceptions_print [OF p]
        split: json.splits list.splits)
  show ?thesis
    unfolding replicate_poll_body_def
    by (intro only_exceptions_then_do only_exceptions_if only_exceptions_ret
        only_exceptions_sleep [OF c] only_exceptions_http not_cancelledD(4) [OF c]
        only_exceptions_response_json only_exceptions_json_get only_exceptions_set_progress
        only_exceptions_print [OF p] out)
qed

lemma returned_only_exceptions:
  "only_exceptions (case returned of Some v \<Rightarrow> ret v | None \<Rightarrow> ret JNull)"
  by (cases returned) (simp_all add: only_exceptions_ret)

lemma luma_try_only_exceptions:
  assumes p: "prints_work ev" and c: "not_cancelled ev"
  shows "only_exceptions (luma_try ev gid)"
  unfolding luma_try_def
  by (intro only_exceptions_then_do only_exceptions_if only_exceptions_ret
      only_exceptions_http not_cancelledD(1) [OF c] only_exceptions_for_loop
      luma_poll_body_only_exceptions [OF p c] returned_only_exceptions
      only_exceptions_response_json only_exceptions_json_get only_exceptions_set_progress
      only_exceptions_print [OF p])

lemma replicate_try_only_exceptions:
  assumes p: "prints_work ev" and c: "not_cancelled ev"
  shows "only_exceptions (replicate_try ev gid)"
  unfolding replicate_try_def
  by (intro only_exceptions_then_do only_exceptions_if only_exceptions_ret
      only_exceptions_http not_cancelledD(3) [OF c] only_exceptions_for_loop
      replicate_poll_body_only_exceptions [OF p c] returned_only_exceptions
      only_exceptions_response_json only_exceptions_json_get only_exceptions_set_progress
      only_exceptions_print [OF p])

lemma huggingface_try_only_exceptions:
  assumes p: "prints_work ev" and c: "not_cancelled ev"
  shows "only_exceptions (huggingface_try ev gid)"
proof -
  have answer: "only_exceptions
      (if status_code response = 200 then
         (let video_bytes = content response
          in if length video_bytes > 1000
             then then_do (print ev 364) (\<lambda>_. ret (JStr huggingface_placeholder))
             else ret JNull)
       else then_do (print ev 367) (\<lambda>_. ret JNull))" for response
    unfolding Let_def
    by (intro only_exceptions_then_do only_exceptions_if only_exceptions_ret
        only_exceptions_print [OF p])
  show ?thesis
    unfolding huggingface_try_def
    by (intro only_exceptions_then_do only_exceptions_http not_cancelledD(5) [OF c]
        only_exceptions_set_progress only_exceptions_print [OF p] answer)
qed

lemma handler_returns:
  "prints_work ev \<Longrightarrow> \<exists>v. fst (then_do (print ev line) (\<lambda>_. ret JNull) w) = Inr v"
  by (simp add: print_then_none_works)

lemma luma_never_raises:
  assumes p: "prints_work ev" and c: "not_cancelled ev"
  shows "\<exists>v. fst (generate_with_luma_dream_machine cfg ev gid w) = Inr v"
  unfolding generate_with_luma_dream_machine_def
  using try_except_total [OF luma_try_only_exceptions [OF p c], of
      "\<lambda>e. then_do (print ev 241) (\<lambda>_. ret JNull)" gid w]
    handler_returns [OF p]
  by simp

lemma replicate_never_raises:
  assumes p: "prints_work ev" and c: "not_cancelled ev"
  shows "\<exists>v. fst (generate_with_replicate cfg ev gid w) = Inr v"
  unfolding generate_with_replicate_def
  using try_except_total [OF replicate_try_only_exceptions [OF p c], of
      "\<lambda>e. then_do (print ev 316) (\<lambda>_. ret JNull)" gid w]
    handler_returns [OF p]
  by simp

lemma huggingface_never_raises:
  assumes p: "prints_work ev" and c: "not_cancelled ev"
  shows "\<exists>v. fst (generate_with_huggingface cfg ev gid w) = Inr v"
  unfolding generate_with_huggingface_def
  using try_except_total [OF huggingface_try_only_exceptions [OF p c], of
      "\<lambda>e. then_do (print ev 370) (\<lambda>_. ret JNull)" gid w]
    handler_returns [OF p]
  by simp

text \<open>With \<open>print\<close> working, all that leaves an adapter is what no \<open>except Exception\<close> catches.\<close>

lemma adapter_lets_through:
  assumes p: "prints_work ev"
    and e: "fst ((if \<not> k then then_do (print ev line) (\<lambda>_. ret JNull)
                 else try_except m (\<lambda>e. then_do (print ev line') (\<lambda>_. ret JNull))) w) = Inl e"
  shows "\<not> is_Exception e"
proof (cases k)
  case False
  with e p show ?thesis by (simp add: print_then_none_works)
next
  case True
  with e have "fst (try_except m (\<lambda>e. then_do (print ev line') (\<lambda>_. ret JNull)) w) = Inl e"
    by simp
  from try_except_Inl [OF this] p show ?thesis
    by (auto simp: print_then_none_works)
qed

text \<open>
  Polling ends without a result when a poll fails after polls that were all
  inconclusive, or when every poll of the budget is inconclusive.
\<close>

lemma polls_no_result:
  assumes hit: "k < (n::nat)" "\<not> inc (g k)" "\<not> fails (g k)"
    and before: "\<forall>j < k. inc (g j)"
    and excl: "\<And>h. inc h \<Longrightarrow> \<not> fails h"
    and bad: "(\<exists>i < n. fails (g i) \<and> (\<forall>j < i. inc (g j))) \<or> (\<forall>j < n. inc (g j))"
  shows False
proof -
  from bad consider i where "i < n" "fails (g i)" "\<forall>j < i. inc (g j)" | "\<forall>j < n. inc (g j)"
    by blast
  then show False
  proof cases
    case 1
    from 1(3) hit(2) have "\<not> k < i" by blast
    moreover from 1(2) hit(3) have "k \<noteq> i" by blast
    moreover from before excl 1(2) have "\<not> i < k" by blast
    ultimately show False by arith
  next
    case 2
    with hit(1,2) show False by blast
  qed
qed

lemma luma_no_result:
  assumes p: "prints_work ev" and c: "not_cancelled ev"
    and bad: "request_failed 201 (luma_post ev) \<or> malformed (luma_post ev) \<or>
      (\<exists>i < 30. poll_fails ''state'' ''completed'' luma_bad_assets (luma_get ev i) \<and>
         (\<forall>j < i. inconclusive ''state'' ''completed'' luma_no_video (luma_get ev j))) \<or>
      (\<forall>j < 30. inconclusive ''state'' ''completed'' luma_no_video (luma_get ev j))"
  shows "fst (generate_with_luma_dream_machine cfg ev gid w) = Inr JNull"
proof -
  from luma_never_raises [OF p c] obtain v where
    v: "fst (generate_with_luma_dream_machine cfg ev gid w) = Inr v"
    by blast
  have "v = JNull"
  proof (rule ccontr)
    assume n: "v \<noteq> JNull"
    from luma_adapter_Inr [OF v n] obtain w' where "luma_try ev gid w = (Inr v, w')" by blast
    from luma_try_Inr [OF this n] obtain k w1 where
      ok: "\<not> request_failed 201 (luma_post ev)" "\<not> malformed (luma_post ev)"
      and k: "k < 30" "luma_poll_body ev gid k w1 = (Inr (Some v), w')"
      and before: "\<forall>j < k. \<exists>wa wb. luma_poll_body ev gid j wa = (Inr None, wb)"
      by blast
    from luma_poll_body_Some [OF k(2)] n luma_video_conclusive [of "luma_get ev k"]
    have hit: "\<not> inconclusive ''state'' ''completed'' luma_no_video (luma_get ev k)"
      "\<not> poll_fails ''state'' ''completed'' luma_bad_assets (luma_get ev k)"
      by blast+
    from before luma_poll_body_None
    have inc: "\<forall>j < k. inconclusive ''state'' ''completed'' luma_no_video (luma_get ev j)"
      by blast
    from bad ok have
      "(\<exists>i < 30. poll_fails ''state'' ''completed'' luma_bad_assets (luma_get ev i) \<and>
         (\<forall>j < i. inconclusive ''state'' ''completed'' luma_no_video (luma_get ev j))) \<or>
      (\<forall>j < 30. inconclusive ''state'' ''completed'' luma_no_video (luma_get ev j))"
      by blast
    with k(1) hit inc luma_inconclusive_not_fails show False
      by (rule polls_no_result)
  qed
  with v show ?thesis by simp
qed

lemma replicate_no_result:
  assumes p: "prints_work ev" and c: "not_cancelled ev"
    and bad: "request_failed 201 (replicate_post ev) \<or> malformed (replicate_post ev) \<or>
      (\<exists>i < 20. poll_fails ''status'' ''succeeded'' (\<lambda>kvs. False) (replicate_get ev i) \<and>
         (\<forall>j < i. inconclusive ''status'' ''succeeded'' replicate_no_output (replicate_get ev j))) \<or>
      (\<forall>j < 20. inconclusive ''status'' ''succeeded'' replicate_no_output (replicate_get ev j))"
  shows "fst (generate_with_replicate cfg ev gid w) = Inr JNull"
proof -
  from replicate_never_raises [OF p c] obtain v where
    v: "fst (generate_with_replicate cfg ev gid w) = Inr v"
    by blast
  have "v = JNull"
  proof (rule ccontr)
    assume n: "v \<noteq> JNull"
    from replicate_adapter_Inr [OF v n] obtain w' where "replicate_try ev gid w = (Inr v, w')"
      by blast
    from replicate_try_Inr [OF this n] obtain k w1 where
      ok: "\<not> request_failed 201 (replicate_post ev)" "\<not> malformed (replicate_post ev)"
      and k: "k < 20" "replicate_poll_body ev gid k w1 = (Inr (Some v), w')"
      and before: "\<forall>j < k. \<exists>wa wb. replicate_poll_body ev gid j wa = (Inr None, wb)"
      by blast
    from replicate_poll_body_Some [OF k(2)] n replicate_output_conclusive [of "replicate_get ev k"]
    have hit: "\<not> inconclusive ''status'' ''succeeded'' replicate_no_output (replicate_get ev k)"
      "\<not> poll_fails ''status'' ''succeeded'' (\<lambda>kvs. False) (replicate_get ev k)"
      by blast+
    from before replicate_poll_body_None
    have inc: "\<forall>j < k. inconclusive ''status'' ''succeeded'' replicate_no_output (replicate_get ev j)"
      by blast
    from bad ok have
      "(\<exists>i < 20. poll_fails ''status'' ''succeeded'' (\<lambda>kvs. False) (replicate_get ev i) \<and>
         (\<forall>j < i. inconclusive ''status'' ''succeeded'' replicate_no_output (replicate_get ev j))) \<or>
      (\<forall>j < 20. inconclusive ''status'' ''succeeded'' replicate_no_output (replicate_get ev j))"
      by blast
    with k(1) hit inc replicate_inconclusive_not_fails show False
      by (rule polls_no_result)
  qed
  with v show ?thesis by simp
qed

lemma huggingface_no_result:
  assumes p: "prints_work ev" and c: "not_cancelled ev"
    and bad: "request_failed 200 (huggingface_post ev) \<or>
     (\<exists>r. huggingface_post ev = Returns r \<and> length (content r) \<le> 1000)"
  shows "fst (generate_with_huggingface cfg ev gid w) = Inr JNull"
proof -
  from huggingface_never_raises [OF p c] obtain v where
    v: "fst (generate_with_huggingface cfg ev gid w) = Inr v"
    by blast
  have "v = JNull"
  proof (rule ccontr)
    assume n: "v \<noteq> JNull"
    from huggingface_adapter_Inr [OF v n] obtain w' where "huggingface_try ev gid w = (Inr v, w')"
      by blast
    from huggingface_try_Inr [OF this n] bad show False
      by (auto simp: request_failed_simps)
  qed
  with v show ?thesis by simp
qed

subsection \<open>Failures stay inside the adapter\<close>

text \<open>
  C6, as the claim states it, fails for a non-2xx answer to a status poll: the loop goes
  on to the next poll, and the adapter returns the video a later poll reports.
\<close>

theorem poll_503_then_video:
  "luma_get providers_up 0 = Returns \<lparr>status_code = 503, json_body = None, content = []\<rparr> \<and>
   fst (generate_with_luma_dream_machine all_keys providers_up ''id-1'' one_queued)
     = Inr (JStr luma_video) \<and>
   JStr luma_video \<noteq> JNull"
  by code_simp

text \<open>
  C6, amended. While no \<open>print\<close> call fails, nothing that is an \<open>Exception\<close> leaves an
  adapter, and an adapter without its credential returns \<open>None\<close>. When moreover the task
  is not cancelled, every adapter returns. Luma and Replicate then return \<open>None\<close> when
  the submission raises, is answered with a status other than 201 or with a body that
  is no JSON object, when a poll fails (it raises, or a 200 carries a body that is no
  JSON object, or reports \<open>failed\<close>, or reports success with assets that cannot be read)
  after polls that were all inconclusive, and when every poll of the budget (30 and 20)
  is inconclusive. A poll answered with a status other than 200 is inconclusive, and so
  is one that reports success without a video: polling goes on. Hugging Face returns
  \<open>None\<close> when its request raises, or is answered with a status other than 200 or
  with at most 1000 bytes.
\<close>

theorem adapters_contain_failures:
  assumes "prints_work ev"
  shows "(fst (generate_with_luma_dream_machine cfg ev gid w) = Inl e \<longrightarrow> \<not> is_Exception e) \<and>
   (fst (generate_with_replicate cfg ev gid w) = Inl e \<longrightarrow> \<not> is_Exception e) \<and>
   (fst (generate_with_huggingface cfg ev gid w) = Inl e \<longrightarrow> \<not> is_Exception e) \<and>
   (\<not> configured (LUMA_API_KEY cfg) \<longrightarrow>
      fst (generate_with_luma_dream_machine cfg ev gid w) = Inr JNull) \<and>
   (\<not> configured (REPLICATE_API_TOKEN cfg) \<longrightarrow>
      fst (generate_with_replicate cfg ev gid w) = Inr JNull) \<and>
   (\<not> configured (HUGGINGFACE_API_KEY cfg) \<longrightarrow>
      fst (generate_with_huggingface cfg ev gid w) = Inr JNull) \<and>
   (not_cancelled ev \<longrightarrow>
     (\<exists>v. fst (generate_with_luma_dream_machine cfg ev gid w) = Inr v) \<and>
     (\<exists>v. fst (generate_with_replicate cfg ev gid w) = Inr v) \<and>
     (\<exists>v. fst (generate_with_huggingface cfg ev gid w) = Inr v) \<and>
     (request_failed 201 (luma_post ev) \<or> malformed (luma_post ev) \<or>
        (\<exists>i < 30. poll_fails ''state'' ''completed'' luma_bad_assets (luma_get ev i) \<and>
           (\<forall>j < i. inconclusive ''state'' ''completed'' luma_no_video (luma_get ev j))) \<or>
        (\<forall>j < 30. inconclusive ''state'' ''completed'' luma_no_video (luma_get ev j))
      \<longrightarrow> fst (generate_with_luma_dream_machine cfg ev gid w) = Inr JNull) \<and>
     (request_failed 201 (replicate_post ev) \<or> malformed (replicate_post ev) \<or>
        (\<exists>i < 20. poll_fails ''status'' ''succeeded'' (\<lambda>kvs. False) (replicate_get ev i) \<and>
           (\<forall>j < i. inconclusive ''status'' ''succeeded'' replicate_no_output
              (replicate_get ev j))) \<or>
        (\<forall>j < 20. inconclusive ''status'' ''succeeded'' replicate_no_output (replicate_get ev j))
      \<longrightarrow> fst (generate_with_replicate cfg ev gid w) = Inr JNull) \<and>
     (request_failed 200 (huggingface_post ev) \<or>
        (\<exists>r. huggingface_post ev = Returns r \<and> length (content r) \<le> 1000)
      \<longrightarrow> fst (generate_with_huggingface cfg ev gid w) = Inr JNull))"
proof -
  note p = assms
  have through: "\<not> is_Exception e"
    if "fst (generate_with_luma_dream_machine cfg ev gid w) = Inl e \<or>
        fst (generate_with_replicate cfg ev gid w) = Inl e \<or>
        fst (generate_with_huggingface cfg ev gid w) = Inl e"
    using that
    unfolding generate_with_luma_dream_machine_def generate_with_replicate_def
      generate_with_huggingface_def
    by (elim disjE) (rule adapter_lets_through [OF p], assumption)+
  have skipped:
    "\<not> configured (LUMA_API_KEY cfg) \<Longrightarrow>
       fst (generate_with_luma_dream_machine cfg ev gid w) = Inr JNull"
    "\<not> configured (REPLICATE_API_TOKEN cfg) \<Longrightarrow>
       fst (generate_with_replicate cfg ev gid w) = Inr JNull"
    "\<not> configured (HUGGINGFACE_API_KEY cfg) \<Longrightarrow>
       fst (generate_with_huggingface cfg ev gid w) = Inr JNull"
    by (simp_all add: generate_with_luma_dream_machine_def generate_with_replicate_def
        generate_with_huggingface_def print_then_none_works [OF p])
  from through skipped
    luma_never_raises [OF p, of cfg gid w] replicate_never_raises [OF p, of cfg gid w]
    huggingface_never_raises [OF p, of cfg gid w] luma_no_result [OF p, of cfg gid w]
    replicate_no_result [OF p, of cfg gid w] huggingface_no_result [OF p, of cfg gid w]
  show ?thesis
    by blast
qed

theorem adapters_contain_failures_witness:
  "prints_work offline \<and> not_cancelled offline \<and>
   request_failed 201 (luma_post offline) \<and>
   fst (generate_with_luma_dream_machine all_keys offline ''id-1'' one_queued) = Inr JNull \<and>
   request_failed 201 (replicate_post offline) \<and>
   fst (generate_with_replicate all_keys offline ''id-1'' one_queued) = Inr JNull \<and>
   request_failed 200 (huggingface_post offline) \<and>
   fst (generate_with_huggingface all_keys offline ''id-1'' one_queued) = Inr JNull \<and>
   \<not> configured (LUMA_API_KEY no_keys) \<and>
   fst (generate_with_luma_dream_machine no_keys offline ''id-1'' one_queued) = Inr JNull \<and>
   prints_work luma_job_fails \<and> not_cancelled luma_job_fails \<and>
   inconclusive ''state'' ''completed'' luma_no_video (luma_get luma_job_fails 0) \<and>
   poll_fails ''state'' ''completed'' luma_bad_assets (luma_get luma_job_fails 1) \<and>
   fst (generate_with_luma_dream_machine all_keys luma_job_fails ''id-1'' one_queued) = Inr JNull \<and>
   prints_work luma_done_without_video \<and> not_cancelled luma_done_without_video \<and>
   inconclusive ''state'' ''completed'' luma_no_video (luma_get luma_done_without_video 0) \<and>
   poll_fails ''state'' ''completed'' luma_bad_assets (luma_get luma_done_without_video 1) \<and>
   fst (generate_with_luma_dream_machine all_keys luma_done_without_video ''id-1'' one_queued)
     = Inr JNull \<and>
   prints_work luma_never_done \<and> not_cancelled luma_never_done \<and>
   luma_get luma_never_done = (\<lambda>i. Returns \<lparr>status_code = 200,
         json_body = Some (JDict [(''state'', JStr ''dreaming'')]), content = []\<rparr>) \<and>
   inconclusive ''state'' ''completed'' luma_no_video (Returns \<lparr>status_code = 200,
         json_body = Some (JDict [(''state'', JStr ''dreaming'')]), content = []\<rparr>) \<and>
   fst (generate_with_luma_dream_machine all_keys luma_never_done ''id-1'' one_queued) = Inr JNull \<and>
   prints_work cancelled_while_polling \<and>
   fst (generate_with_luma_dream_machine all_keys cancelled_while_polling ''id-1'' one_queued)
     = Inl CancelledError \<and>
   \<not> is_Exception CancelledError"
proof -
  have works: "prints_work offline" "prints_work luma_job_fails"
      "prints_work luma_done_without_video" "prints_work luma_never_done"
      "prints_work cancelled_while_polling"
    by (simp_all add: prints_work_def offline_def luma_job_fails_def luma_done_without_video_def
        luma_never_done_def cancelled_while_polling_def providers_up_def)
  have runs: "not_cancelled offline" "not_cancelled luma_job_fails"
      "not_cancelled luma_done_without_video" "not_cancelled luma_never_done"
    by (simp_all add: not_cancelled_def catchable_def offline_def luma_job_fails_def
        luma_done_without_video_def luma_never_done_def providers_up_def)
  have off: "request_failed 201 (luma_post offline)" "request_failed 201 (replicate_post offline)"
      "request_failed 200 (huggingface_post offline)"
    by (simp_all add: offline_def request_failed_def)
  have nk: "\<not> configured (LUMA_API_KEY no_keys)"
    by (simp add: no_keys_def configured_def)
  have job: "inconclusive ''state'' ''completed'' luma_no_video (luma_get luma_job_fails 0)"
      "poll_fails ''state'' ''completed'' luma_bad_assets (luma_get luma_job_fails 1)"
    by (simp_all add: luma_job_fails_def inconclusive_def poll_fails_def)
  then have "\<forall>j < (1::nat). inconclusive ''state'' ''completed'' luma_no_video
      (luma_get luma_job_fails j)"
    by simp
  with job(2) have fails:
    "\<exists>i < 30. poll_fails ''state'' ''completed'' luma_bad_assets (luma_get luma_job_fails i) \<and>
      (\<forall>j < i. inconclusive ''state'' ''completed'' luma_no_video (luma_get luma_job_fails j))"
    by (intro exI [of _ "1::nat"]) simp
  have empty: "inconclusive ''state'' ''completed'' luma_no_video
        (luma_get luma_done_without_video 0)"
      "poll_fails ''state'' ''completed'' luma_bad_assets (luma_get luma_done_without_video 1)"
    by (simp_all add: luma_done_without_video_def inconclusive_def poll_fails_def
        luma_no_video_def)
  then have "\<forall>j < (1::nat). inconclusive ''state'' ''completed'' luma_no_video
      (luma_get luma_done_without_video j)"
    by simp
  with empty(2) have fails':
    "\<exists>i < 30. poll_fails ''state'' ''completed'' luma_bad_assets
        (luma_get luma_done_without_video i) \<and>
      (\<forall>j < i. inconclusive ''state'' ''completed'' luma_no_video
        (luma_get luma_done_without_video j))"
    by (intro exI [of _ "1::nat"]) simp
  have never: "luma_get luma_never_done = (\<lambda>i. Returns \<lparr>status_code = 200,
         json_body = Some (JDict [(''state'', JStr ''dreaming'')]), content = []\<rparr>)"
    by (simp add: luma_never_done_def)
  have dreaming: "inconclusive ''state'' ''completed'' luma_no_video (Returns \<lparr>status_code = 200,
         json_body = Some (JDict [(''state'', JStr ''dreaming'')]), content = []\<rparr>)"
    by (simp add: inconclusive_def)
  with never have budget:
    "\<forall>j < 30. inconclusive ''state'' ''completed'' luma_no_video (luma_get luma_never_done j)"
    by simp
  have cancelled:
    "fst (generate_with_luma_dream_machine all_keys cancelled_while_polling ''id-1'' one_queued)
      = Inl CancelledError"
    by code_simp
  from off runs(1) adapters_contain_failures [OF works(1), of all_keys "''id-1''" one_queued]
  have "fst (generate_with_luma_dream_machine all_keys offline ''id-1'' one_queued) = Inr JNull"
    "fst (generate_with_replicate all_keys offline ''id-1'' one_queued) = Inr JNull"
    "fst (generate_with_huggingface all_keys offline ''id-1'' one_queued) = Inr JNull"
    by blast+
  moreover from nk adapters_contain_failures [OF works(1), of no_keys "''id-1''" one_queued]
  have "fst (generate_with_luma_dream_machine no_keys offline ''id-1'' one_queued) = Inr JNull"
    by blast
  moreover from fails runs(2)
    adapters_contain_failures [OF works(2), of all_keys "''id-1''" one_queued]
  have "fst (generate_with_luma_dream_machine all_keys luma_job_fails ''id-1'' one_queued)
      = Inr JNull"
    by blast
  moreover from fails' runs(3)
    adapters_contain_failures [OF works(3), of all_keys "''id-1''" one_queued]
  have "fst (generate_with_luma_dream_machine all_keys luma_done_without_video ''id-1'' one_queued)
      = Inr JNull"
    by blast
  moreover from budget runs(4)
    adapters_contain_failures [OF works(4), of all_keys "''id-1''" one_queued]
  have "fst (generate_with_luma_dream_machine all_keys luma_never_done ''id-1'' one_queued)
      = Inr JNull"
    by blast
  moreover from cancelled
    adapters_contain_failures [OF works(5), of all_keys "''id-1''" one_queued CancelledError]
  have "\<not> is_Exception CancelledError"
    by blast
  ultimately show ?thesis
    using works runs off nk job empty never dreaming cancelled by blast
qed

subsection \<open>Where a result comes from\<close>

text \<open>
  C7, as the claim states it, fails for Hugging Face: whatever bytes the provider
  sends, the adapter returns its own fixed placeholder URL, which the response does not
  hold.
\<close>

theorem huggingface_returns_placeholder:
  "huggingface_post providers_up = Returns \<lparr>status_code = 200, json_body = None,
       content = replicate 1001 (CHR ''x'')\<rparr> \<and>
   fst (generate_with_huggingface all_keys providers_up ''id-1'' one_queued)
     = Inr (JStr huggingface_placeholder) \<and>
   \<not> sublist huggingface_placeholder (replicate 1001 (CHR ''x''))"
  by code_simp

text \<open>
  C7, amended. A result other than \<open>None\<close> from the Luma adapter is the value at
  \<open>assets.video\<close> of a 200 poll response whose state is \<open>completed\<close>; from the Replicate
  adapter it is the first element of \<open>output\<close> of a 200 poll response whose status is
  \<open>succeeded\<close>; from the Hugging Face adapter it is the adapter's fixed placeholder URL,
  returned when the provider answers 200 with more than 1000 bytes.
\<close>

theorem provider_results_come_from_responses:
  "(fst (generate_with_luma_dream_machine cfg ev gid w) = Inr v \<and> v \<noteq> JNull \<longrightarrow>
      (\<exists>i < 30. \<exists>r kvs assets. luma_get ev i = Returns r \<and> status_code r = 200 \<and>
         json_body r = Some (JDict kvs) \<and> map_of kvs ''state'' = Some (JStr ''completed'') \<and>
         map_of kvs ''assets'' = Some (JDict assets) \<and> map_of assets ''video'' = Some v)) \<and>
   (fst (generate_with_replicate cfg ev gid w) = Inr v \<and> v \<noteq> JNull \<longrightarrow>
      (\<exists>i < 20. \<exists>r kvs rest. replicate_get ev i = Returns r \<and> status_code r = 200 \<and>
         json_body r = Some (JDict kvs) \<and> map_of kvs ''status'' = Some (JStr ''succeeded'') \<and>
         map_of kvs ''output'' = Some (JList (v # rest)))) \<and>
   (fst (generate_with_huggingface cfg ev gid w) = Inr v \<and> v \<noteq> JNull \<longrightarrow>
      v = JStr huggingface_placeholder \<and>
      (\<exists>r. huggingface_post ev = Returns r \<and> status_code r = 200 \<and> length (content r) > 1000))"
proof -
  have luma: "\<exists>i < 30. \<exists>r kvs assets. luma_get ev i = Returns r \<and> status_code r = 200 \<and>
         json_body r = Some (JDict kvs) \<and> map_of kvs ''state'' = Some (JStr ''completed'') \<and>
         map_of kvs ''assets'' = Some (JDict assets) \<and> map_of assets ''video'' = Some v"
    if a: "fst (generate_with_luma_dream_machine cfg ev gid w) = Inr v" "v \<noteq> JNull"
  proof -
    from luma_adapter_Inr [OF a] obtain w' where "luma_try ev gid w = (Inr v, w')"
      by blast
    from luma_try_Inr [OF this a(2)] obtain i w1 where
      "i < 30" "luma_poll_body ev gid i w1 = (Inr (Some v), w')"
      by blast
    with luma_poll_body_Some [OF this(2)] a(2) show ?thesis
      by blast
  qed
  have repl: "\<exists>i < 20. \<exists>r kvs rest. replicate_get ev i = Returns r \<and> status_code r = 200 \<and>
         json_body r = Some (JDict kvs) \<and> map_of kvs ''status'' = Some (JStr ''succeeded'') \<and>
         map_of kvs ''output'' = Some (JList (v # rest))"
    if a: "fst (generate_with_replicate cfg ev gid w) = Inr v" "v \<noteq> JNull"
  proof -
    from replicate_adapter_Inr [OF a] obtain w' where "replicate_try ev gid w = (Inr v, w')"
      by blast
    from replicate_try_Inr [OF this a(2)] obtain i w1 where
      "i < 20" "replicate_poll_body ev gid i w1 = (Inr (Some v), w')"
      by blast
    with replicate_poll_body_Some [OF this(2)] a(2) show ?thesis
      by blast
  qed
  have hf: "v = JStr huggingface_placeholder \<and>
      (\<exists>r. huggingface_post ev = Returns r \<and> status_code r = 200 \<and> length (content r) > 1000)"
    if a: "fst (generate_with_huggingface cfg ev gid w) = Inr v" "v \<noteq> JNull"
  proof -
    from huggingface_adapter_Inr [OF a] obtain w' where "huggingface_try ev gid w = (Inr v, w')"
      by blast
    from huggingface_try_Inr [OF this a(2)] show ?thesis .
  qed
  from luma repl hf show ?thesis by blast
qed

theorem provider_results_come_from_responses_witness:
  "fst (generate_with_luma_dream_machine all_keys providers_up ''id-1'' one_queued)
     = Inr (JStr luma_video) \<and>
   JStr luma_video \<noteq> JNull \<and>
   (\<exists>i < 30. \<exists>r kvs assets. luma_get providers_up i = Returns r \<and> status_code r = 200 \<and>
      json_body r = Some (JDict kvs) \<and> map_of kvs ''state'' = Some (JStr ''completed'') \<and>
      map_of kvs ''assets'' = Some (JDict assets) \<and>
      map_of assets ''video'' = Some (JStr luma_video)) \<and>
   fst (generate_with_replicate all_keys providers_up ''id-1'' one_queued)
     = Inr (JStr replicate_video) \<and>
   JStr replicate_video \<noteq> JNull \<and>
   (\<exists>i < 20. \<exists>r kvs rest. replicate_get providers_up i = Returns r \<and> status_code r = 200 \<and>
      json_body r = Some (JDict kvs) \<and> map_of kvs ''status'' = Some (JStr ''succeeded'') \<and>
      map_of kvs ''output'' = Some (JList (JStr replicate_video # rest))) \<and>
   fst (generate_with_huggingface all_keys providers_up ''id-1'' one_queued)
     = Inr (JStr huggingface_placeholder) \<and>
   JStr huggingface_placeholder \<noteq> JNull \<and>
   (\<exists>r. huggingface_post providers_up = Returns r \<and> status_code r = 200 \<and>
      length (content r) > 1000)"
proof -
  have l: "fst (generate_with_luma_dream_machine all_keys providers_up ''id-1'' one_queued)
     = Inr (JStr luma_video) \<and> JStr luma_video \<noteq> JNull"
    by code_simp
  have r: "fst (generate_with_replicate all_keys providers_up ''id-1'' one_queued)
     = Inr (JStr replicate_video) \<and> JStr replicate_video \<noteq> JNull"
    by code_simp
  have h: "fst (generate_with_huggingface all_keys providers_up ''id-1'' one_queued)
     = Inr (JStr huggingface_placeholder) \<and> JStr huggingface_placeholder \<noteq> JNull"
    by code_simp
  from l provider_results_come_from_responses
    [of all_keys providers_up "''id-1''" one_queued "JStr luma_video"]
  have "\<exists>i < 30. \<exists>r kvs assets. luma_get providers_up i = Returns r \<and> status_code r = 200 \<and>
      json_body r = Some (JDict kvs) \<and> map_of kvs ''state'' = Some (JStr ''completed'') \<and>
      map_of kvs ''assets'' = Some (JDict assets) \<and>
      map_of assets ''video'' = Some (JStr luma_video)"
    by blast
  moreover from r provider_results_come_from_responses
    [of all_keys providers_up "''id-1''" one_queued "JStr replicate_video"]
  have "\<exists>i < 20. \<exists>r kvs rest. replicate_get providers_up i = Returns r \<and> status_code r = 200 \<and>
      json_body r = Some (JDict kvs) \<and> map_of kvs ''status'' = Some (JStr ''succeeded'') \<and>
      map_of kvs ''output'' = Some (JList (JStr replicate_video # rest))"
    by blast
  moreover from h provider_results_come_from_responses
    [of all_keys providers_up "''id-1''" one_queued "JStr huggingface_placeholder"]
  have "\<exists>r. huggingface_post providers_up = Returns r \<and> status_code r = 200 \<and>
      length (content r) > 1000"
    by blast
  ultimately show ?thesis using l r h by blast
qed

section \<open>Progress milestones\<close>

lemma milestones_Nil [simp]: "milestones b []"
  by (simp add: milestones_def)

lemma milestones_mono: "milestones b qs \<Longrightarrow> b \<le> b' \<Longrightarrow> milestones b' qs"
  by (auto simp: milestones_def list_all_iff)

lemma milestones_snoc:
  "milestones b qs \<Longrightarrow> b \<le> v \<Longrightarrow> 25 \<le> v \<Longrightarrow> milestones v (qs @ [v])"
  by (auto simp: milestones_def list_all_iff sorted_append)

lemma during_lookup:
  "during gid r w0 ps w \<Longrightarrow>
   map_of (generation_status w) gid = Some (r\<lparr>progress := last (progress r # ps)\<rparr>)"
  by (simp add: during_def AList.update_conv')

lemma during_start:
  "map_of (generation_status w) gid = Some r \<Longrightarrow> during gid r w [] w"
  by (simp add: during_def AList.update_triv)

lemma during_update_record:
  assumes "during gid r w0 ps w"
  shows "update_record gid f w =
    (Inr (), w\<lparr>generation_status :=
                 AList.update gid (f (r\<lparr>progress := last (progress r # ps)\<rparr>)) (generation_status w0),
               writes := writes w @ [(gid, f (r\<lparr>progress := last (progress r # ps)\<rparr>))]\<rparr>)"
  using assms during_lookup [OF assms]
  by (simp add: update_record_def store_record_def during_def)

lemma during_set_progress:
  assumes "during gid r w0 ps w"
  shows "fst (set_progress gid v w) = Inr () \<and> during gid r w0 (ps @ [v]) (snd (set_progress gid v w))
    \<and> attempts (snd (set_progress gid v w)) = attempts w"
  using assms unfolding set_progress_def during_update_record [OF assms]
  by (simp add: during_def)

subsection \<open>Rules\<close>

lemma climbs_weaken: "climbs gid r w0 base b m c \<Longrightarrow> c \<le> b' \<Longrightarrow> climbs gid r w0 base b m b'"
  unfolding climbs_def by (meson milestones_mono)

lemma climbs_later: "climbs gid r w0 base c m b' \<Longrightarrow> b \<le> c \<Longrightarrow> climbs gid r w0 base b m b'"
  unfolding climbs_def by (meson milestones_mono)

lemma climbs_skip:
  assumes "\<And>w. snd (m w) = w"
  shows "climbs gid r w0 base b m b"
  unfolding climbs_def
proof (intro allI impI conjI)
  fix w qs assume "during gid r w0 (base @ qs) w \<and> milestones b qs"
  then have "during gid r w0 (base @ qs @ []) (snd (m w)) \<and> milestones b (qs @ [])"
    by (simp add: assms)
  then show "\<exists>qs'. during gid r w0 (base @ qs @ qs') (snd (m w)) \<and> milestones b (qs @ qs')"
    by blast
next
  fix w show "attempts (snd (m w)) = attempts w" by (simp add: assms)
qed

lemma climbs_ret: "climbs gid r w0 base b (ret v) b"
  by (rule climbs_skip) (simp add: ret_def)

lemma climbs_raise: "climbs gid r w0 base b (raise e) b"
  by (rule climbs_skip) (simp add: raise_def)

lemma climbs_lift: "climbs gid r w0 base b (lift x) b"
  by (rule climbs_skip) (simp add: lift_def)

lemma climbs_http: "climbs gid r w0 base b (http h) b"
  by (rule climbs_skip) (simp add: http_def ret_def raise_def split: http_outcome.splits)

lemma climbs_print: "climbs gid r w0 base b (print ev line) b"
  by (rule climbs_skip) (simp add: print_def ret_def raise_def split: option.splits)

lemma climbs_sleep: "climbs gid r w0 base b (asyncio_sleep ev line i) b"
  by (rule climbs_skip) (simp add: asyncio_sleep_def ret_def raise_def split: option.splits)

lemma climbs_set_progress:
  assumes "b \<le> v" and "25 \<le> v"
  shows "climbs gid r w0 base b (set_progress gid v) v"
  unfolding climbs_def
proof (intro allI impI conjI)
  fix w qs assume a: "during gid r w0 (base @ qs) w \<and> milestones b qs"
  from a during_set_progress [of gid r w0 "base @ qs" w v] milestones_snoc [OF _ assms, of qs]
  have "during gid r w0 (base @ qs @ [v]) (snd (set_progress gid v w)) \<and> milestones v (qs @ [v])"
    by simp
  then show "\<exists>qs'. during gid r w0 (base @ qs @ qs') (snd (set_progress gid v w)) \<and>
      milestones v (qs @ qs')"
    by blast
  from a during_set_progress [of gid r w0 "base @ qs" w v]
  show "attempts (snd (set_progress gid v w)) = attempts w" by simp
qed

lemma climbs_then_do:
  assumes m: "climbs gid r w0 base b m c" and f: "\<And>x. climbs gid r w0 base c (f x) b'"
    and le: "c \<le> b'"
  shows "climbs gid r w0 base b (then_do m f) b'"
  unfolding climbs_def
proof (intro allI impI)
  fix w qs assume a: "during gid r w0 (base @ qs) w \<and> milestones b qs"
  with m obtain qs1 where 1: "during gid r w0 (base @ qs @ qs1) (snd (m w))"
    "milestones c (qs @ qs1)" "attempts (snd (m w)) = attempts w"
    unfolding climbs_def by blast
  show "(\<exists>qs'. during gid r w0 (base @ qs @ qs') (snd (then_do m f w)) \<and> milestones b' (qs @ qs')) \<and>
      attempts (snd (then_do m f w)) = attempts w"
  proof (cases "m w")
    case (Pair res w1)
    show ?thesis
    proof (cases res)
      case (Inl e)
      with Pair have "snd (then_do m f w) = snd (m w)" by (simp add: then_do_def)
      with 1 le show ?thesis by (metis milestones_mono)
    next
      case (Inr x)
      with Pair have eq: "then_do m f w = f x (snd (m w))" by (simp add: then_do_def)
      from f [of x] 1(1,2) obtain qs2 where
        "during gid r w0 (base @ (qs @ qs1) @ qs2) (snd (f x (snd (m w))))"
        "milestones b' ((qs @ qs1) @ qs2)" "attempts (snd (f x (snd (m w)))) = attempts (snd (m w))"
        unfolding climbs_def by blast
      with eq 1(3) have "during gid r w0 (base @ qs @ (qs1 @ qs2)) (snd (then_do m f w)) \<and>
          milestones b' (qs @ (qs1 @ qs2)) \<and> attempts (snd (then_do m f w)) = attempts w"
        by simp
      then show ?thesis by blast
    qed
  qed
qed

lemma climbs_try_except:
  assumes m: "climbs gid r w0 base b m c" and h: "\<And>e. climbs gid r w0 base c (h e) b'"
    and le: "c \<le> b'"
  shows "climbs gid r w0 base b (try_except m h) b'"
  unfolding climbs_def
proof (intro allI impI)
  fix w qs assume a: "during gid r w0 (base @ qs) w \<and> milestones b qs"
  with m obtain qs1 where 1: "during gid r w0 (base @ qs @ qs1) (snd (m w))"
    "milestones c (qs @ qs1)" "attempts (snd (m w)) = attempts w"
    unfolding climbs_def by blast
  show "(\<exists>qs'. during gid r w0 (base @ qs @ qs') (snd (try_except m h w)) \<and>
        milestones b' (qs @ qs')) \<and>
      attempts (snd (try_except m h w)) = attempts w"
  proof (cases "m w")
    case (Pair res w1)
    show ?thesis
    proof (cases res)
      case (Inr x)
      with Pair have "snd (try_except m h w) = snd (m w)" by (simp add: try_except_def)
      with 1 le show ?thesis by (metis milestones_mono)
    next
      case (Inl e)
      show ?thesis
      proof (cases "is_Exception e")
        case False
        with Inl Pair have "snd (try_except m h w) = snd (m w)" by (simp add: try_except_def)
        with 1 le show ?thesis by (metis milestones_mono)
      next
        case True
        with Inl Pair have eq: "try_except m h w = h e (snd (m w))"
          by (simp add: try_except_def)
        from h [of e] 1(1,2) obtain qs2 where
          "during gid r w0 (base @ (qs @ qs1) @ qs2) (snd (h e (snd (m w))))"
          "milestones b' ((qs @ qs1) @ qs2)"
          "attempts (snd (h e (snd (m w)))) = attempts (snd (m w))"
          unfolding climbs_def by blast
        with eq 1(3) have "during gid r w0 (base @ qs @ (qs1 @ qs2)) (snd (try_except m h w)) \<and>
            milestones b' (qs @ (qs1 @ qs2)) \<and> attempts (snd (try_except m h w)) = attempts w"
          by simp
        then show ?thesis by blast
      qed
    qed
  qed
qed

lemma climbs_for_loop:
  assumes "\<And>x. climbs gid r w0 base b (body x) b"
  shows "climbs gid r w0 base b (for_loop xs body) b"
proof (induction xs)
  case Nil
  show ?case by (simp add: climbs_ret)
next
  case (Cons x xs)
  have "for_loop (x # xs) body =
      then_do (body x) (\<lambda>res. case res of Some v \<Rightarrow> ret (Some v) | None \<Rightarrow> for_loop xs body)"
    by (auto simp: then_do_def ret_def fun_eq_iff split: prod.splits sum.splits option.splits)
  moreover have "climbs gid r w0 base b
      (then_do (body x) (\<lambda>res. case res of Some v \<Rightarrow> ret (Some v) | None \<Rightarrow> for_loop xs body)) b"
  proof (rule climbs_then_do [OF assms])
    fix res :: "'b option"
    show "climbs gid r w0 base b (case res of Some v \<Rightarrow> ret (Some v) | None \<Rightarrow> for_loop xs body) b"
      by (cases res) (simp_all add: climbs_ret Cons.IH)
  qed simp
  ultimately show ?case by simp
qed


lemma climbs_if:
  "climbs gid r w0 base b m b' \<Longrightarrow> climbs gid r w0 base b n b' \<Longrightarrow>
   climbs gid r w0 base b (if c then m else n) b'"
  by simp

lemma climbs_ret_le: "b \<le> b' \<Longrightarrow> climbs gid r w0 base b (ret v) b'"
  by (rule climbs_weaken [OF climbs_ret])

subsection \<open>The adapters' milestones\<close>

lemma print_then_climbs: "climbs gid r w0 base b (then_do (print ev line) (\<lambda>_. ret v)) b"
  by (intro climbs_then_do [where c = b] climbs_print climbs_ret) simp

lemma luma_poll_body_climbs: "climbs gid r w0 base 90 (luma_poll_body ev gid i) 90"
  unfolding luma_poll_body_def
  by (intro climbs_then_do [where c = 90] climbs_sleep climbs_http climbs_lift climbs_ret
        climbs_if climbs_set_progress print_then_climbs) simp_all

lemma replicate_poll_body_climbs: "climbs gid r w0 base 90 (replicate_poll_body ev gid i) 90"
proof -
  have out: "climbs gid r w0 base 90
      (case out of JList (first # rest) \<Rightarrow> then_do (print ev 306) (\<lambda>_. ret (Some first))
       | _ \<Rightarrow> ret None) 90" for out
    by (simp add: climbs_ret print_then_climbs split: json.splits list.splits)
  show ?thesis
    unfolding replicate_poll_body_def
    by (intro climbs_then_do [where c = 90] climbs_sleep climbs_http climbs_lift climbs_ret
        climbs_if climbs_set_progress print_then_climbs out) simp_all
qed

lemma returned_climbs:
  "climbs gid r w0 base 90 (case returned of Some v \<Rightarrow> ret v | None \<Rightarrow> ret JNull) 90"
  by (cases returned) (simp_all add: climbs_ret)

lemma luma_try_climbs:
  assumes "b \<le> 25"
  shows "climbs gid r w0 base b (luma_try ev gid) 90"
proof -
  have polling: "climbs gid r w0 base 75
      (then_do (for_loop [0..<30] (luma_poll_body ev gid))
         (\<lambda>returned. case returned of Some v \<Rightarrow> ret v | None \<Rightarrow> ret JNull)) 90"
    by (intro climbs_then_do [where c = 90] climbs_later [where c = 90 and b = 75]
        climbs_for_loop luma_poll_body_climbs returned_climbs) simp_all
  have accepted: "climbs gid r w0 base 50
      (then_do (lift (response_json response)) (\<lambda>result.
       then_do (lift (json_get result ''id'' JNull)) (\<lambda>generation_id_luma.
       then_do (set_progress gid 75) (\<lambda>_.
       then_do (for_loop [0..<30] (luma_poll_body ev gid)) (\<lambda>returned.
         case returned of Some v \<Rightarrow> ret v | None \<Rightarrow> ret JNull))))) 90" for response
    by (intro climbs_then_do [where c = 50 and b = 50] climbs_lift
        climbs_then_do [where c = 75 and b = 50] climbs_set_progress polling) simp_all
  have rejected: "climbs gid r w0 base 50 (then_do (print ev 238) (\<lambda>_. ret JNull)) 90"
    by (rule climbs_weaken [OF print_then_climbs]) simp
  have answered: "climbs gid r w0 base 50
      (then_do (http (luma_post ev)) (\<lambda>response.
         if status_code response = 201 then
           then_do (lift (response_json response)) (\<lambda>result.
           then_do (lift (json_get result ''id'' JNull)) (\<lambda>generation_id_luma.
           then_do (set_progress gid 75) (\<lambda>_.
           then_do (for_loop [0..<30] (luma_poll_body ev gid)) (\<lambda>returned.
             case returned of Some v \<Rightarrow> ret v | None \<Rightarrow> ret JNull))))
         else then_do (print ev 238) (\<lambda>_. ret JNull))) 90"
    by (intro climbs_then_do [where c = 50 and b = 50] climbs_http climbs_if accepted rejected)
       simp
  show ?thesis
    unfolding luma_try_def using assms
    by (intro climbs_then_do [where c = 25 and b = b] climbs_then_do [where c = 25 and b = 25]
        climbs_then_do [where c = 50 and b = 25] climbs_set_progress climbs_print answered)
       simp_all
qed

lemma replicate_try_climbs:
  assumes "b \<le> 25"
  shows "climbs gid r w0 base b (replicate_try ev gid) 90"
proof -
  have polling: "climbs gid r w0 base 75
      (then_do (for_loop [0..<20] (replicate_poll_body ev gid))
         (\<lambda>returned. case returned of Some v \<Rightarrow> ret v | None \<Rightarrow> ret JNull)) 90"
    by (intro climbs_then_do [where c = 90] climbs_later [where c = 90 and b = 75]
        climbs_for_loop replicate_poll_body_climbs returned_climbs) simp_all
  have accepted: "climbs gid r w0 base 55
      (then_do (lift (response_json response)) (\<lambda>result.
       then_do (lift (json_get result ''id'' JNull)) (\<lambda>prediction_id.
       then_do (set_progress gid 75) (\<lambda>_.
       then_do (for_loop [0..<20] (replicate_poll_body ev gid)) (\<lambda>returned.
         case returned of Some v \<Rightarrow> ret v | None \<Rightarrow> ret JNull))))) 90" for response
    by (intro climbs_then_do [where c = 55 and b = 55] climbs_lift
        climbs_then_do [where c = 75 and b = 55] climbs_set_progress polling) simp_all
  have rejected: "climbs gid r w0 base 55 (then_do (print ev 313) (\<lambda>_. ret JNull)) 90"
    by (rule climbs_weaken [OF print_then_climbs]) simp
  have answered: "climbs gid r w0 base 55
      (then_do (http (replicate_post ev)) (\<lambda>response.
         if status_code response = 201 then
           then_do (lift (response_json response)) (\<lambda>result.
           then_do (lift (json_get result ''id'' JNull)) (\<lambda>prediction_id.
           then_do (set_progress gid 75) (\<lambda>_.
           then_do (for_loop [0..<20] (replicate_poll_body ev gid)) (\<lambda>returned.
             case returned of Some v \<Rightarrow> ret v | None \<Rightarrow> ret JNull))))
         else then_do (print ev 313) (\<lambda>_. ret JNull))) 90"
    by (intro climbs_then_do [where c = 55 and b = 55] climbs_http climbs_if accepted rejected)
       simp
  show ?thesis
    unfolding replicate_try_def using assms
    by (intro climbs_then_do [where c = 35 and b = b] climbs_then_do [where c = 35 and b = 35]
        climbs_then_do [where c = 55 and b = 35] climbs_set_progress climbs_print answered)
       simp_all
qed

lemma huggingface_try_climbs:
  assumes "b \<le> 25"
  shows "climbs gid r w0 base b (huggingface_try ev gid) 90"
proof -
  have answer: "climbs gid r w0 base 85
      (if status_code response = 200 then
         (let video_bytes = content response
          in if length video_bytes > 1000
             then then_do (print ev 364) (\<lambda>_. ret (JStr huggingface_placeholder))
             else ret JNull)
       else then_do (print ev 367) (\<lambda>_. ret JNull)) 90" for response
    unfolding Let_def
    by (intro climbs_if climbs_ret_le climbs_weaken [OF print_then_climbs]) simp_all
  have answered: "climbs gid r w0 base 65
      (then_do (http (huggingface_post ev)) (\<lambda>response.
       then_do (set_progress gid 85) (\<lambda>_.
         if status_code response = 200 then
           (let video_bytes = content response
            in if length video_bytes > 1000
               then then_do (print ev 364) (\<lambda>_. ret (JStr huggingface_placeholder))
               else ret JNull)
         else then_do (print ev 367) (\<lambda>_. ret JNull)))) 90"
    by (intro climbs_then_do [where c = 65 and b = 65] climbs_then_do [where c = 85 and b = 65]
        climbs_http climbs_set_progress answer) simp_all
  show ?thesis
    unfolding huggingface_try_def using assms
    by (intro climbs_then_do [where c = 40 and b = b] climbs_then_do [where c = 40 and b = 40]
        climbs_then_do [where c = 65 and b = 40] climbs_set_progress climbs_print answered)
       simp_all
qed

lemma luma_climbs:
  "b \<le> 25 \<Longrightarrow> climbs gid r w0 base b (generate_with_luma_dream_machine cfg ev gid) 90"
  unfolding generate_with_luma_dream_machine_def
  by (intro climbs_if climbs_weaken [OF print_then_climbs] climbs_try_except [where c = 90]
        luma_try_climbs) simp_all

lemma replicate_climbs:
  "b \<le> 25 \<Longrightarrow> climbs gid r w0 base b (generate_with_replicate cfg ev gid) 90"
  unfolding generate_with_replicate_def
  by (intro climbs_if climbs_weaken [OF print_then_climbs] climbs_try_except [where c = 90]
        replicate_try_climbs) simp_all

lemma huggingface_climbs:
  "b \<le> 25 \<Longrightarrow> climbs gid r w0 base b (generate_with_huggingface cfg ev gid) 90"
  unfolding generate_with_huggingface_def
  by (intro climbs_if climbs_weaken [OF print_then_climbs] climbs_try_except [where c = 90]
        huggingface_try_climbs) simp_all

lemma mock_climbs:
  assumes "b \<le> 25"
  shows "climbs gid r w0 base b (generate_enhanced_mock_video ev gid prompt_data) 90"
proof -
  have printing: "climbs gid r w0 base 80
      (then_do (asyncio_sleep ev 381 0) (\<lambda>_.
       then_do (print ev 398) (\<lambda>_.
       then_do (print ev 399) (\<lambda>_.
         ret (JStr (mock_video_url (prompt prompt_data))))))) 90"
    by (intro climbs_then_do [where c = 80 and b = 80] climbs_sleep climbs_print climbs_ret_le)
       simp_all
  show ?thesis
    unfolding generate_enhanced_mock_video_def using assms
    by (intro climbs_then_do [where c = 60 and b = b] climbs_then_do [where c = 60 and b = 60]
        climbs_then_do [where c = 80 and b = 60] climbs_set_progress climbs_sleep printing)
       simp_all
qed
subsection \<open>One run of the background task\<close>

lemma climbs_run:
  assumes "climbs gid r w0 base b m b'" and "during gid r w0 base w"
  shows "\<exists>qs. during gid r w0 (base @ qs) (snd (m w)) \<and> milestones b' qs \<and>
     attempts (snd (m w)) = attempts w"
  using assms unfolding climbs_def
  by (metis append_Nil append_Nil2 milestones_Nil)

lemma during_attempts: "during gid r w0 ps w \<Longrightarrow> during gid r w0 ps (w\<lparr>attempts := a\<rparr>)"
  by (simp add: during_def)

text \<open>
  An adapter's turn, \<open>res\<close> being what the turns before have come to: the adapter is
  called when nothing has been raised, no URL is there yet and \<open>k\<close> holds, and is
  passed over otherwise.
\<close>

lemma adapter_stage:
  assumes d: "during gid r w0 ps w"
    and c: "\<And>base. climbs gid r w0 base 25 m 90"
  shows "\<exists>res' qs w'.
     (case res of Inl e \<Rightarrow> (Inl e, w)
      | Inr url \<Rightarrow> (if \<not> truthy url \<and> k then call a m else ret url) w) = (res', w') \<and>
     during gid r w0 (ps @ qs) w' \<and> milestones 90 qs \<and>
     attempts w' = attempts w @ (if returned_nothing res \<and> k then [(a, res')] else []) \<and>
     (\<not> (returned_nothing res \<and> k) \<longrightarrow> qs = [] \<and> res' = res) \<and>
     (returned_nothing res \<and> k \<longrightarrow> res' = fst (m w))"
proof (cases "returned_nothing res \<and> k")
  case False
  have "(case res of Inl e \<Rightarrow> (Inl e, w)
      | Inr url \<Rightarrow> (if \<not> truthy url \<and> k then call a m else ret url) w) = (res, w)"
    using False by (cases res) (auto simp: returned_nothing_def ret_def)
  with d False have "(case res of Inl e \<Rightarrow> (Inl e, w)
      | Inr url \<Rightarrow> (if \<not> truthy url \<and> k then call a m else ret url) w) = (res, w) \<and>
     during gid r w0 (ps @ []) w \<and> milestones 90 [] \<and>
     attempts w = attempts w @ (if returned_nothing res \<and> k then [(a, res)] else []) \<and>
     (\<not> (returned_nothing res \<and> k) \<longrightarrow> [] = ([] :: int list) \<and> res = res) \<and>
     (returned_nothing res \<and> k \<longrightarrow> res = fst (m w))"
    by auto
  then show ?thesis by blast
next
  case True
  then obtain url where res: "res = Inr url" and u: "\<not> truthy url" and k: k
    by (cases res) (simp_all add: returned_nothing_def)
  from climbs_run [OF c d] obtain qs where qs: "during gid r w0 (ps @ qs) (snd (m w))"
    "milestones 90 qs" "attempts (snd (m w)) = attempts w"
    by blast
  let ?w' = "(snd (m w))\<lparr>attempts := attempts (snd (m w)) @ [(a, fst (m w))]\<rparr>"
  have "call a m w = (fst (m w), ?w')"
    by (cases "m w") (simp add: call_def)
  with res u k have "(case res of Inl e \<Rightarrow> (Inl e, w)
      | Inr url \<Rightarrow> (if \<not> truthy url \<and> k then call a m else ret url) w) = (fst (m w), ?w')"
    by simp
  with True qs have "(case res of Inl e \<Rightarrow> (Inl e, w)
      | Inr url \<Rightarrow> (if \<not> truthy url \<and> k then call a m else ret url) w) = (fst (m w), ?w') \<and>
     during gid r w0 (ps @ qs) ?w' \<and> milestones 90 qs \<and>
     attempts ?w' = attempts w @ (if returned_nothing res \<and> k then [(a, fst (m w))] else []) \<and>
     (\<not> (returned_nothing res \<and> k) \<longrightarrow> qs = [] \<and> fst (m w) = res) \<and>
     (returned_nothing res \<and> k \<longrightarrow> fst (m w) = fst (m w))"
    by (simp add: during_attempts)
  then show ?thesis by blast
qed

text \<open>A turn followed by the rest of the \<open>try\<close> block.\<close>

lemma stage_then:
  assumes "(case res of Inl e \<Rightarrow> (Inl e, w) | Inr url \<Rightarrow> S url w) = (res', w')"
  shows "(case res of Inl e \<Rightarrow> (Inl e, w) | Inr url \<Rightarrow> then_do (S url) G w) =
     (case res' of Inl e \<Rightarrow> (Inl e, w') | Inr url \<Rightarrow> G url w')"
  using assms by (cases res; cases res') (auto simp: then_do_def)

lemma try_except_apply:
  "try_except m h w =
     (case fst (m w) of
        Inl e \<Rightarrow> if is_Exception e then h e (snd (m w)) else (Inl e, snd (m w))
      | Inr v \<Rightarrow> (Inr v, snd (m w)))"
  by (simp add: try_except_def split: prod.splits sum.splits)

lemma mark_after_progress:
  "mark_completed url t ((mark_processing r)\<lparr>progress := p\<rparr>) = mark_completed url t r"
  "mark_failed e ((mark_processing r)\<lparr>progress := p\<rparr>) = mark_failed e r"
  by (simp_all add: mark_completed_def mark_failed_def mark_processing_def)

lemma last_progress:
  "progress r1 = p \<Longrightarrow>
   last (r1 # map (\<lambda>q. r1\<lparr>progress := q\<rparr>) qs) = r1\<lparr>progress := last (p # qs)\<rparr>"
  by (cases qs rule: rev_cases) auto

text \<open>
  What one run does when the record is in the dict. \<open>res1\<close> to \<open>res4\<close> are what the
  orchestrator holds after the turn of each adapter (its result or what it raised, or
  what was held before when the adapter is passed over), \<open>qs1\<close> to \<open>qs4\<close> the progress
  values each adapter stores.
\<close>

lemma process_outcome:
  assumes r: "map_of (generation_status w) gid = Some r"
  shows "\<exists>res1 res2 res3 res4 qs1 qs2 qs3 qs4.
     (let L = configured (LUMA_API_KEY cfg);
          R = (returned_nothing res1 \<and> configured (REPLICATE_API_TOKEN cfg));
          H = (returned_nothing res2 \<and> configured (HUGGINGFACE_API_KEY cfg));
          M = returned_nothing res3;
          fin = (case res4 of Inr url \<Rightarrow> [mark_completed url (time_completed ev) r]
                 | Inl e \<Rightarrow> if is_Exception e then [mark_failed e r] else []);
          xs = mark_processing r #
               map (\<lambda>p. (mark_processing r)\<lparr>progress := p\<rparr>) (qs1 @ qs2 @ qs3 @ qs4) @ fin;
          w' = snd (process_video_generation cfg ev gid prompt_data w)
      in fst (process_video_generation cfg ev gid prompt_data w) =
           (case res4 of Inr url \<Rightarrow> Inr ()
            | Inl e \<Rightarrow> if is_Exception e then Inr () else Inl e) \<and>
         generation_status w' = AList.update gid (last xs) (generation_status w) \<and>
         writes w' = writes w @ map (Pair gid) xs \<and>
         background_tasks w' = background_tasks w \<and>
         attempts w' = attempts w @
           (if L then [(Luma, res1)] else []) @ (if R then [(Replicate, res2)] else []) @
           (if H then [(HuggingFace, res3)] else []) @ (if M then [(Mock, res4)] else []) \<and>
         milestones 90 qs1 \<and> milestones 90 qs2 \<and> milestones 90 qs3 \<and> milestones 90 qs4 \<and>
         (\<not> L \<longrightarrow> qs1 = [] \<and> res1 = Inr JNull) \<and> (\<not> R \<longrightarrow> qs2 = [] \<and> res2 = res1) \<and>
         (\<not> H \<longrightarrow> qs3 = [] \<and> res3 = res2) \<and> (\<not> M \<longrightarrow> qs4 = [] \<and> res4 = res3) \<and>
         (L \<longrightarrow> (\<exists>v. res1 = fst (generate_with_luma_dream_machine cfg ev gid v))) \<and>
         (R \<longrightarrow> (\<exists>v. res2 = fst (generate_with_replicate cfg ev gid v))) \<and>
         (H \<longrightarrow> (\<exists>v. res3 = fst (generate_with_huggingface cfg ev gid v))))"
proof -
  define r1 where "r1 = mark_processing r"
  define w1 where "w1 = w\<lparr>generation_status := AList.update gid r1 (generation_status w),
                         writes := writes w @ [(gid, r1)]\<rparr>"
  define t where "t = time_completed ev"
  have first: "update_record gid mark_processing w = (Inr (), w1)"
    by (simp add: update_record_def store_record_def r w1_def r1_def)
  have d0: "during gid r1 w1 [] w1"
    by (simp add: during_def w1_def)
  have luma: "\<And>base. climbs gid r1 w1 base 25 (generate_with_luma_dream_machine cfg ev gid) 90"
    by (rule luma_climbs) simp
  have repl: "\<And>base. climbs gid r1 w1 base 25 (generate_with_replicate cfg ev gid) 90"
    by (rule replicate_climbs) simp
  have hf: "\<And>base. climbs gid r1 w1 base 25 (generate_with_huggingface cfg ev gid) 90"
    by (rule huggingface_climbs) simp
  have mock: "\<And>base. climbs gid r1 w1 base 25
      (generate_enhanced_mock_video ev gid prompt_data) 90"
    by (rule mock_climbs) simp
  define S1 where "S1 = (if configured (LUMA_API_KEY cfg)
      then call Luma (generate_with_luma_dream_machine cfg ev gid) else ret JNull)"
  define S2 where "S2 = (\<lambda>url. if \<not> truthy url \<and> configured (REPLICATE_API_TOKEN cfg)
      then call Replicate (generate_with_replicate cfg ev gid) else ret url)"
  define S3 where "S3 = (\<lambda>url. if \<not> truthy url \<and> configured (HUGGINGFACE_API_KEY cfg)
      then call HuggingFace (generate_with_huggingface cfg ev gid) else ret url)"
  define S4 where "S4 = (\<lambda>url. if \<not> truthy url \<and> True
      then call Mock (generate_enhanced_mock_video ev gid prompt_data) else ret url)"
  define C where "C = (\<lambda>url. update_record gid (mark_completed url t))"
  have pt: "process_try cfg ev gid prompt_data =
      then_do (update_record gid mark_processing) (\<lambda>_.
      then_do S1 (\<lambda>url. then_do (S2 url) (\<lambda>url. then_do (S3 url) (\<lambda>url. then_do (S4 url) C))))"
    by (simp add: process_try_def S1_def S2_def S3_def S4_def C_def t_def)
  define L where "L = configured (LUMA_API_KEY cfg)"
  from adapter_stage [OF d0 luma, where res = "Inr JNull" and k = L and a = Luma]
  obtain res1 qs1 wa where s1: "S1 w1 = (res1, wa)"
    and da: "during gid r1 w1 qs1 wa" and m1: "milestones 90 qs1"
    and a1: "attempts wa = attempts w1 @ (if L then [(Luma, res1)] else [])"
    and n1: "\<not> L \<longrightarrow> qs1 = [] \<and> res1 = Inr JNull"
    and f1: "L \<longrightarrow> res1 = fst (generate_with_luma_dream_machine cfg ev gid w1)"
    unfolding S1_def L_def by (auto simp: returned_nothing_def)
  define R where "R = (returned_nothing res1 \<and> configured (REPLICATE_API_TOKEN cfg))"
  from adapter_stage [OF da repl, where res = res1 and k = "configured (REPLICATE_API_TOKEN cfg)"
      and a = Replicate]
  obtain res2 qs2 wb where
    s2: "(case res1 of Inl e \<Rightarrow> (Inl e, wa) | Inr url \<Rightarrow> S2 url wa) = (res2, wb)"
    and db: "during gid r1 w1 (qs1 @ qs2) wb" and m2: "milestones 90 qs2"
    and a2: "attempts wb = attempts wa @ (if R then [(Replicate, res2)] else [])"
    and n2: "\<not> R \<longrightarrow> qs2 = [] \<and> res2 = res1"
    and f2: "R \<longrightarrow> res2 = fst (generate_with_replicate cfg ev gid wa)"
    unfolding S2_def R_def by blast
  define H where "H = (returned_nothing res2 \<and> configured (HUGGINGFACE_API_KEY cfg))"
  from adapter_stage [OF db hf, where res = res2 and k = "configured (HUGGINGFACE_API_KEY cfg)"
      and a = HuggingFace]
  obtain res3 qs3 wc where
    s3: "(case res2 of Inl e \<Rightarrow> (Inl e, wb) | Inr url \<Rightarrow> S3 url wb) = (res3, wc)"
    and dc: "during gid r1 w1 ((qs1 @ qs2) @ qs3) wc" and m3: "milestones 90 qs3"
    and a3: "attempts wc = attempts wb @ (if H then [(HuggingFace, res3)] else [])"
    and n3: "\<not> H \<longrightarrow> qs3 = [] \<and> res3 = res2"
    and f3: "H \<longrightarrow> res3 = fst (generate_with_huggingface cfg ev gid wb)"
    unfolding S3_def H_def by blast
  define M where "M = (returned_nothing res3 \<and> True)"
  have M: "M = returned_nothing res3"
    by (simp add: M_def)
  from adapter_stage [OF dc mock, where res = res3 and k = True and a = Mock]
  obtain res4 qs4 wd where
    s4: "(case res3 of Inl e \<Rightarrow> (Inl e, wc) | Inr url \<Rightarrow> S4 url wc) = (res4, wd)"
    and dd: "during gid r1 w1 (((qs1 @ qs2) @ qs3) @ qs4) wd" and m4: "milestones 90 qs4"
    and a4: "attempts wd = attempts wc @ (if M then [(Mock, res4)] else [])"
    and n4: "\<not> M \<longrightarrow> qs4 = [] \<and> res4 = res3"
    unfolding S4_def M_def by blast
  have tried: "process_try cfg ev gid prompt_data w =
      (case res4 of Inl e \<Rightarrow> (Inl e, wd) | Inr url \<Rightarrow> C url wd)"
  proof -
    have "process_try cfg ev gid prompt_data w =
        then_do S1 (\<lambda>url. then_do (S2 url) (\<lambda>url. then_do (S3 url) (\<lambda>url. then_do (S4 url) C))) w1"
      by (simp add: pt then_do_def first)
    also have "\<dots> = (case res1 of Inl e \<Rightarrow> (Inl e, wa)
        | Inr url \<Rightarrow> then_do (S2 url) (\<lambda>url. then_do (S3 url) (\<lambda>url. then_do (S4 url) C)) wa)"
      by (simp add: then_do_def s1 split: sum.splits)
    also have "\<dots> = (case res2 of Inl e \<Rightarrow> (Inl e, wb)
        | Inr url \<Rightarrow> then_do (S3 url) (\<lambda>url. then_do (S4 url) C) wb)"
      by (rule stage_then [where S = S2 and w = wa, OF s2])
    also have "\<dots> = (case res3 of Inl e \<Rightarrow> (Inl e, wc) | Inr url \<Rightarrow> then_do (S4 url) C wc)"
      by (rule stage_then [where S = S3 and w = wb, OF s3])
    also have "\<dots> = (case res4 of Inl e \<Rightarrow> (Inl e, wd) | Inr url \<Rightarrow> C url wd)"
      by (rule stage_then [where S = S4 and w = wc, OF s4])
    finally show ?thesis .
  qed
  define qs where "qs = qs1 @ qs2 @ qs3 @ qs4"
  define cur where "cur = r1\<lparr>progress := last (progress r1 # qs)\<rparr>"
  from dd have dq: "during gid r1 w1 qs wd"
    by (simp add: qs_def)
  have store: "update_record gid f wd =
      (Inr (), wd\<lparr>generation_status := AList.update gid (f cur) (generation_status w1),
                  writes := writes wd @ [(gid, f cur)]\<rparr>)" for f
    unfolding during_update_record [OF dq] cur_def ..
  have marks: "mark_completed url t cur = mark_completed url t r"
      "mark_failed e cur = mark_failed e r" for url e
    by (simp_all add: cur_def r1_def mark_after_progress)
  define fin where "fin = (case res4 of Inr url \<Rightarrow> [mark_completed url t r]
                 | Inl e \<Rightarrow> if is_Exception e then [mark_failed e r] else [])"
  define w' where "w' = wd\<lparr>generation_status := AList.update gid (last (cur # fin)) (generation_status w1),
                           writes := writes wd @ map (Pair gid) fin\<rparr>"
  have same: "wd\<lparr>generation_status := AList.update gid cur (generation_status w1),
               writes := writes wd\<rparr> = wd"
    using dq by (simp add: during_def cur_def)
  have run: "process_video_generation cfg ev gid prompt_data w =
      ((case res4 of Inr url \<Rightarrow> Inr () | Inl e \<Rightarrow> if is_Exception e then Inr () else Inl e), w')"
  proof (cases res4)
    case (Inr url)
    then show ?thesis
      unfolding process_video_generation_def try_except_apply tried
      by (simp add: C_def store marks w'_def fin_def)
  next
    case (Inl e)
    then show ?thesis
      unfolding process_video_generation_def try_except_apply tried
      by (simp add: store marks w'_def fin_def same)
  qed
  define xs where "xs = r1 # map (\<lambda>p. r1\<lparr>progress := p\<rparr>) qs @ fin"
  have "last (r1 # map (\<lambda>p. r1\<lparr>progress := p\<rparr>) qs) = cur"
    unfolding cur_def by (rule last_progress) simp
  moreover have "xs = (r1 # map (\<lambda>p. r1\<lparr>progress := p\<rparr>) qs) @ fin"
    by (simp add: xs_def)
  ultimately have lx: "last xs = last (cur # fin)"
    by (simp only: last_append last_ConsR last_ConsL split: if_splits) simp
  have gs: "generation_status w' = AList.update gid (last xs) (generation_status w)"
    by (simp add: w'_def w1_def lx)
  from dq have "writes wd = writes w @ map (Pair gid) (r1 # map (\<lambda>p. r1\<lparr>progress := p\<rparr>) qs)"
    by (simp add: during_def w1_def comp_def)
  then have wr: "writes w' = writes w @ map (Pair gid) xs"
    by (simp add: w'_def xs_def)
  from dq have bt: "background_tasks w' = background_tasks w"
    by (simp add: during_def w1_def w'_def)
  have "attempts w1 = attempts w" "attempts w' = attempts wd"
    by (simp_all add: w1_def w'_def)
  with a1 a2 a3 a4 have at: "attempts w' = attempts w @
       (if L then [(Luma, res1)] else []) @ (if R then [(Replicate, res2)] else []) @
       (if H then [(HuggingFace, res3)] else []) @ (if M then [(Mock, res4)] else [])"
    by (simp only: append_assoc)
  from run have res: "fst (process_video_generation cfg ev gid prompt_data w) =
      (case res4 of Inr url \<Rightarrow> Inr () | Inl e \<Rightarrow> if is_Exception e then Inr () else Inl e)"
    and w': "snd (process_video_generation cfg ev gid prompt_data w) = w'"
    by simp_all
  from f1 have g1: "L \<longrightarrow> (\<exists>v. res1 = fst (generate_with_luma_dream_machine cfg ev gid v))"
    by blast
  from f2 have g2: "R \<longrightarrow> (\<exists>v. res2 = fst (generate_with_replicate cfg ev gid v))"
    by blast
  from f3 have g3: "H \<longrightarrow> (\<exists>v. res3 = fst (generate_with_huggingface cfg ev gid v))"
    by blast
  note all = res gs wr bt at m1 m2 m3 m4 n1 n2 n3 n4 g1 g2 g3
  show ?thesis
    unfolding Let_def w'
    using all [unfolded L_def R_def H_def M xs_def qs_def fin_def r1_def t_def]
    by blast
qed

section \<open>The order of attempts\<close>

lemma returned_url_simps:
  "returned_url [] a = False"
  "returned_url ((b, res) # xs) a =
     (b = a \<and> (case res of Inr v \<Rightarrow> truthy v | Inl e \<Rightarrow> False) \<or> returned_url xs a)"
  "returned_url (xs @ ys) a = (returned_url xs a \<or> returned_url ys a)"
  by (auto simp: returned_url_def)

lemma raised_simps:
  "raised [] a = False"
  "raised ((b, res) # xs) a =
     (b = a \<and> (case res of Inr v \<Rightarrow> False | Inl e \<Rightarrow> True) \<or> raised xs a)"
  "raised (xs @ ys) a = (raised xs a \<or> raised ys a)"
  by (auto simp: raised_def)

lemma returned_nothing_iff:
  "returned_nothing res \<longleftrightarrow>
     \<not> (case res of Inr v \<Rightarrow> truthy v | Inl e \<Rightarrow> False) \<and>
     \<not> (case res of Inr v \<Rightarrow> False | Inl e \<Rightarrow> True)"
  by (cases res) (simp_all add: returned_nothing_def)

text \<open>
  C5, as the claim states it, fails when an adapter raises: with every credential
  configured and standard output closed, the Luma adapter raises what its handler's
  \<open>print\<close> raises; no provider has returned a URL, yet neither the next providers nor
  the mock are invoked, and the record ends \<open>failed\<close>.
\<close>

theorem closed_stdout_stops_after_luma:
  "configured (LUMA_API_KEY all_keys) \<and> configured (REPLICATE_API_TOKEN all_keys) \<and>
   configured (HUGGINGFACE_API_KEY all_keys) \<and>
   attempts (snd (process_video_generation all_keys stdout_closed ''id-1'' cat_prompt one_queued))
     = [(Luma, Inl (ValueError ''I/O operation on closed file.''))] \<and>
   map_of (generation_status
       (snd (process_video_generation all_keys stdout_closed ''id-1'' cat_prompt one_queued)))
     ''id-1'' =
     Some \<lparr>status = ''failed'', progress = 0, created_at = 1000, prompt_text = ''My Cat'',
           video_url = None, completed_at = None,
           error = Some ''I/O operation on closed file.''\<rparr>"
  by code_simp

text \<open>
  C5, amended. When the task is dispatched with its record in the dict, the adapters it
  invokes are, in this order and each at most once, Luma, Replicate, Hugging Face and
  the mock. Luma is invoked exactly when its key is configured; Replicate exactly when
  its token is configured and Luma neither returned a URL nor raised; Hugging Face
  exactly when its key is configured and no provider before returned a URL or raised;
  the mock exactly when no provider returned a URL or raised, which includes the case
  that none is configured. While no \<open>print\<close> call fails and the task is not cancelled,
  no provider raises, and the mock is invoked exactly when no provider returned a URL.
\<close>

theorem providers_tried_in_order:
  assumes "map_of (generation_status w) gid = Some r"
  shows "\<exists>new. attempts (snd (process_video_generation cfg ev gid prompt_data w)) = attempts w @ new \<and>
     map fst new = filter (\<lambda>a. a \<in> fst ` set new) [Luma, Replicate, HuggingFace, Mock] \<and>
     (Luma \<in> fst ` set new \<longleftrightarrow> configured (LUMA_API_KEY cfg)) \<and>
     (Replicate \<in> fst ` set new \<longleftrightarrow>
        configured (REPLICATE_API_TOKEN cfg) \<and> \<not> returned_url new Luma \<and> \<not> raised new Luma) \<and>
     (HuggingFace \<in> fst ` set new \<longleftrightarrow>
        configured (HUGGINGFACE_API_KEY cfg) \<and> \<not> returned_url new Luma \<and> \<not> raised new Luma \<and>
        \<not> returned_url new Replicate \<and> \<not> raised new Replicate) \<and>
     (Mock \<in> fst ` set new \<longleftrightarrow>
        \<not> returned_url new Luma \<and> \<not> raised new Luma \<and>
        \<not> returned_url new Replicate \<and> \<not> raised new Replicate \<and>
        \<not> returned_url new HuggingFace \<and> \<not> raised new HuggingFace) \<and>
     (prints_work ev \<and> not_cancelled ev \<longrightarrow>
        \<not> raised new Luma \<and> \<not> raised new Replicate \<and> \<not> raised new HuggingFace \<and>
        (Mock \<in> fst ` set new \<longleftrightarrow>
           \<not> returned_url new Luma \<and> \<not> returned_url new Replicate \<and>
           \<not> returned_url new HuggingFace))"
proof -
  define L where "L = configured (LUMA_API_KEY cfg)"
  define R' where "R' = configured (REPLICATE_API_TOKEN cfg)"
  define H' where "H' = configured (HUGGINGFACE_API_KEY cfg)"
  from process_outcome [OF assms, of cfg ev prompt_data]
  obtain res1 res2 res3 res4 where
    att: "attempts (snd (process_video_generation cfg ev gid prompt_data w)) = attempts w @
       (if L then [(Luma, res1)] else []) @
       (if returned_nothing res1 \<and> R' then [(Replicate, res2)] else []) @
       (if returned_nothing res2 \<and> H' then [(HuggingFace, res3)] else []) @
       (if returned_nothing res3 then [(Mock, res4)] else [])"
    and skip: "\<not> L \<longrightarrow> res1 = Inr JNull"
      "\<not> (returned_nothing res1 \<and> R') \<longrightarrow> res2 = res1"
      "\<not> (returned_nothing res2 \<and> H') \<longrightarrow> res3 = res2"
    and from_adapter: "L \<longrightarrow> (\<exists>v. res1 = fst (generate_with_luma_dream_machine cfg ev gid v))"
      "returned_nothing res1 \<and> R' \<longrightarrow> (\<exists>v. res2 = fst (generate_with_replicate cfg ev gid v))"
      "returned_nothing res2 \<and> H' \<longrightarrow> (\<exists>v. res3 = fst (generate_with_huggingface cfg ev gid v))"
    unfolding Let_def L_def R'_def H'_def by blast
  define A2 where "A2 = (returned_nothing res1 \<and> R')"
  define A3 where "A3 = (returned_nothing res2 \<and> H')"
  define A4 where "A4 = returned_nothing res3"
  define new where "new =
       (if L then [(Luma, res1)] else []) @ (if A2 then [(Replicate, res2)] else []) @
       (if A3 then [(HuggingFace, res3)] else []) @ (if A4 then [(Mock, res4)] else [])"
  from att have att': "attempts (snd (process_video_generation cfg ev gid prompt_data w)) =
      attempts w @ new"
    by (simp add: new_def A2_def A3_def A4_def)
  have order: "map fst new = filter (\<lambda>a. a \<in> fst ` set new) [Luma, Replicate, HuggingFace, Mock]"
    unfolding new_def by simp
  have luma: "Luma \<in> fst ` set new \<longleftrightarrow> L"
    unfolding new_def by auto
  have repl: "Replicate \<in> fst ` set new \<longleftrightarrow> A2"
    unfolding new_def by auto
  have hf: "HuggingFace \<in> fst ` set new \<longleftrightarrow> A3"
    unfolding new_def by auto
  have mock: "Mock \<in> fst ` set new \<longleftrightarrow> A4"
    unfolding new_def by auto
  have n1: "returned_nothing res1 \<longleftrightarrow> \<not> returned_url new Luma \<and> \<not> raised new Luma"
  proof (cases L)
    case True
    then show ?thesis
      unfolding new_def returned_nothing_iff [of res1]
      by (simp add: returned_url_simps raised_simps)
  next
    case False
    with skip(1) have "returned_nothing res1"
      by (simp add: returned_nothing_def)
    with False show ?thesis
      unfolding new_def by (simp add: returned_url_simps raised_simps)
  qed
  have n2: "returned_nothing res2 \<longleftrightarrow>
      returned_nothing res1 \<and> \<not> returned_url new Replicate \<and> \<not> raised new Replicate"
  proof (cases A2)
    case True
    then have "returned_nothing res1"
      by (simp add: A2_def)
    with True show ?thesis
      unfolding new_def returned_nothing_iff [of res2]
      by (simp add: returned_url_simps raised_simps)
  next
    case False
    with skip(2) have "res2 = res1"
      by (simp add: A2_def)
    with False show ?thesis
      unfolding new_def by (simp add: returned_url_simps raised_simps)
  qed
  have n3: "returned_nothing res3 \<longleftrightarrow>
      returned_nothing res2 \<and> \<not> returned_url new HuggingFace \<and> \<not> raised new HuggingFace"
  proof (cases A3)
    case True
    then have "returned_nothing res2"
      by (simp add: A3_def)
    with True show ?thesis
      unfolding new_def returned_nothing_iff [of res3]
      by (simp add: returned_url_simps raised_simps)
  next
    case False
    with skip(3) have "res3 = res2"
      by (simp add: A3_def)
    with False show ?thesis
      unfolding new_def by (simp add: returned_url_simps raised_simps)
  qed
  have quiet: "\<not> raised new Luma \<and> \<not> raised new Replicate \<and> \<not> raised new HuggingFace"
    if p: "prints_work ev" and c: "not_cancelled ev"
  proof -
    have 1: "\<exists>v. res1 = Inr v" if L
      using that from_adapter(1) luma_never_raises [OF p c, of cfg gid] by metis
    have 2: "\<exists>v. res2 = Inr v" if A2
      using that from_adapter(2) replicate_never_raises [OF p c, of cfg gid]
      unfolding A2_def by metis
    have 3: "\<exists>v. res3 = Inr v" if A3
      using that from_adapter(3) huggingface_never_raises [OF p c, of cfg gid]
      unfolding A3_def by metis
    from 1 2 3 show ?thesis
      unfolding new_def by (auto simp: returned_url_simps raised_simps)
  qed
  note conds = repl [unfolded A2_def] hf [unfolded A3_def] mock [unfolded A4_def]
  from att' order luma conds n1 n2 n3 quiet show ?thesis
    unfolding L_def [symmetric] R'_def [symmetric] H'_def [symmetric]
    by blast
qed

theorem providers_tried_in_order_witness:
  "map_of (generation_status one_queued) ''id-1'' =
     Some \<lparr>status = ''queued'', progress = 0, created_at = 1000, prompt_text = ''My Cat'',
           video_url = None, completed_at = None, error = None\<rparr> \<and>
   prints_work luma_down \<and> not_cancelled luma_down \<and>
   attempts (snd (process_video_generation all_keys luma_down ''id-1'' cat_prompt one_queued))
     = [(Luma, Inr JNull), (Replicate, Inr (JStr replicate_video))] \<and>
   attempts (snd (process_video_generation no_keys offline ''id-1'' cat_prompt one_queued))
     = [(Mock, Inr (JStr cat_url))] \<and>
   attempts (snd (process_video_generation all_keys cancelled_while_polling ''id-1'' cat_prompt
       one_queued))
     = [(Luma, Inl CancelledError)] \<and>
   (\<exists>new. attempts (snd (process_video_generation all_keys luma_down ''id-1'' cat_prompt one_queued))
        = attempts one_queued @ new \<and>
     map fst new = filter (\<lambda>a. a \<in> fst ` set new) [Luma, Replicate, HuggingFace, Mock] \<and>
     (Luma \<in> fst ` set new \<longleftrightarrow> configured (LUMA_API_KEY all_keys)) \<and>
     (Replicate \<in> fst ` set new \<longleftrightarrow>
        configured (REPLICATE_API_TOKEN all_keys) \<and> \<not> returned_url new Luma \<and>
        \<not> raised new Luma) \<and>
     (HuggingFace \<in> fst ` set new \<longleftrightarrow>
        configured (HUGGINGFACE_API_KEY all_keys) \<and> \<not> returned_url new Luma \<and>
        \<not> raised new Luma \<and> \<not> returned_url new Replicate \<and> \<not> raised new Replicate) \<and>
     \<not> raised new Luma \<and> \<not> raised new Replicate \<and> \<not> raised new HuggingFace \<and>
     (Mock \<in> fst ` set new \<longleftrightarrow>
        \<not> returned_url new Luma \<and> \<not> returned_url new Replicate \<and>
        \<not> returned_url new HuggingFace))"
proof -
  have r: "map_of (generation_status one_queued) ''id-1'' =
     Some \<lparr>status = ''queued'', progress = 0, created_at = 1000, prompt_text = ''My Cat'',
           video_url = None, completed_at = None, error = None\<rparr>"
    by code_simp
  have p: "prints_work luma_down"
    by (simp add: prints_work_def luma_down_def providers_up_def)
  have c: "not_cancelled luma_down"
    by (simp add: not_cancelled_def catchable_def luma_down_def providers_up_def)
  have a: "attempts (snd (process_video_generation all_keys luma_down ''id-1'' cat_prompt one_queued))
     = [(Luma, Inr JNull), (Replicate, Inr (JStr replicate_video))]"
    by code_simp
  have b: "attempts (snd (process_video_generation no_keys offline ''id-1'' cat_prompt one_queued))
     = [(Mock, Inr (JStr cat_url))]"
    by code_simp
  have d: "attempts (snd (process_video_generation all_keys cancelled_while_polling ''id-1''
       cat_prompt one_queued))
     = [(Luma, Inl CancelledError)]"
    by code_simp
  from providers_tried_in_order [OF r, of all_keys luma_down cat_prompt] p c
  have "\<exists>new. attempts (snd (process_video_generation all_keys luma_down ''id-1'' cat_prompt
          one_queued))
        = attempts one_queued @ new \<and>
     map fst new = filter (\<lambda>a. a \<in> fst ` set new) [Luma, Replicate, HuggingFace, Mock] \<and>
     (Luma \<in> fst ` set new \<longleftrightarrow> configured (LUMA_API_KEY all_keys)) \<and>
     (Replicate \<in> fst ` set new \<longleftrightarrow>
        configured (REPLICATE_API_TOKEN all_keys) \<and> \<not> returned_url new Luma \<and>
        \<not> raised new Luma) \<and>
     (HuggingFace \<in> fst ` set new \<longleftrightarrow>
        configured (HUGGINGFACE_API_KEY all_keys) \<and> \<not> returned_url new Luma \<and>
        \<not> raised new Luma \<and> \<not> returned_url new Replicate \<and> \<not> raised new Replicate) \<and>
     \<not> raised new Luma \<and> \<not> raised new Replicate \<and> \<not> raised new HuggingFace \<and>
     (Mock \<in> fst ` set new \<longleftrightarrow>
        \<not> returned_url new Luma \<and> \<not> returned_url new Replicate \<and>
        \<not> returned_url new HuggingFace)"
    by (elim exE conjE impE) (blast+)
  with r p c a b d show ?thesis
    by blast
qed

section \<open>Progress over one generation\<close>

text \<open>
  C1, as the claim states it, fails when the orchestrator falls back from one provider
  to the next: with Luma and Replicate configured and Luma rejecting the job, the
  record, still \<open>processing\<close>, goes from progress 50 back to 35.
\<close>

theorem progress_drops_on_fallback:
  "map (\<lambda>(g, x). (status x, progress x))
     (writes (snd (process_video_generation all_keys luma_down ''id-1'' cat_prompt one_queued))) =
     [(''queued'', 0), (''processing'', 10), (''processing'', 25), (''processing'', 50),
      (''processing'', 35), (''processing'', 55), (''processing'', 75), (''processing'', 90),
      (''completed'', 100)] \<and>
   \<not> sorted (map (progress \<circ> snd)
     (writes (snd (process_video_generation all_keys luma_down ''id-1'' cat_prompt one_queued))))"
  by code_simp

lemma milestones_bounds: "milestones b qs \<Longrightarrow> q \<in> set qs \<Longrightarrow> 25 \<le> q \<and> q \<le> b"
  by (auto simp: milestones_def list_all_iff)

lemma milestones_sorted: "milestones b qs \<Longrightarrow> sorted qs"
  by (simp add: milestones_def)

lemma adapter_progress_sorted:
  assumes r: "map_of (generation_status w) gid = Some r"
    and c: "climbs gid r w [] 25 m 90"
  shows "sorted (map (progress \<circ> snd) (drop (length (writes w)) (writes (snd (m w)))))"
proof -
  from climbs_run [OF c during_start [OF r]] obtain qs where
    "during gid r w qs (snd (m w))" "milestones 90 qs"
    by auto
  then have "map (progress \<circ> snd) (drop (length (writes w)) (writes (snd (m w)))) = qs"
    "sorted qs"
    by (simp_all add: during_def comp_def milestones_sorted)
  then show ?thesis by simp
qed

text \<open>
  C1, amended. Every progress value stored during a generation is an integer from 0 to
  100. Within one adapter attempt the values stored never decrease. Over the whole
  generation, from the value at creation up to completion (the write that marks the
  record \<open>failed\<close> resets it to 0 and is left out), they never decrease when only one
  adapter is attempted.
\<close>

theorem progress_bounded_and_rising_within_attempt:
  assumes r: "map_of (generation_status w) gid = Some r"
  shows "(let w' = snd (process_video_generation cfg ev gid prompt_data w);
              stored = map snd (drop (length (writes w)) (writes w'));
              tried = drop (length (attempts w)) (attempts w')
          in list_all (\<lambda>x. 0 \<le> progress x \<and> progress x \<le> 100) stored \<and>
             (length tried \<le> 1 \<and> progress r \<le> 10 \<longrightarrow>
                sorted (progress r # map progress (filter (\<lambda>x. status x \<noteq> ''failed'') stored)))) \<and>
     sorted (map (progress \<circ> snd) (drop (length (writes w))
        (writes (snd (generate_with_luma_dream_machine cfg ev gid w))))) \<and>
     sorted (map (progress \<circ> snd) (drop (length (writes w))
        (writes (snd (generate_with_replicate cfg ev gid w))))) \<and>
     sorted (map (progress \<circ> snd) (drop (length (writes w))
        (writes (snd (generate_with_huggingface cfg ev gid w))))) \<and>
     sorted (map (progress \<circ> snd) (drop (length (writes w))
        (writes (snd (generate_enhanced_mock_video ev gid prompt_data w)))))"
proof -
  define w' where "w' = snd (process_video_generation cfg ev gid prompt_data w)"
  define r1 where "r1 = mark_processing r"
  from process_outcome [OF r, of cfg ev prompt_data]
  obtain L R H M qs1 qs2 qs3 qs4 fin a1 a2 a3 a4 res4 where
    wr: "writes w' = writes w @ map (Pair gid)
           (r1 # map (\<lambda>p. r1\<lparr>progress := p\<rparr>) (qs1 @ qs2 @ qs3 @ qs4) @ fin)"
    and at: "attempts w' = attempts w @
           (if L then [a1] else []) @ (if R then [a2] else []) @
           (if H then [a3] else []) @ (if M then [a4] else [])"
    and fin: "fin = (case res4 of Inr url \<Rightarrow> [mark_completed url (time_completed ev) r]
                 | Inl e \<Rightarrow> if is_Exception e then [mark_failed e r] else [])"
    and ms: "milestones 90 qs1" "milestones 90 qs2" "milestones 90 qs3" "milestones 90 qs4"
    and skip: "\<not> L \<longrightarrow> qs1 = []" "\<not> R \<longrightarrow> qs2 = []" "\<not> H \<longrightarrow> qs3 = []" "\<not> M \<longrightarrow> qs4 = []"
    unfolding Let_def w'_def r1_def by blast
  define qs where "qs = qs1 @ qs2 @ qs3 @ qs4"
  have stored: "map snd (drop (length (writes w)) (writes w')) =
      r1 # map (\<lambda>p. r1\<lparr>progress := p\<rparr>) qs @ fin"
    by (simp add: wr comp_def qs_def)
  have tried: "drop (length (attempts w)) (attempts w') =
      (if L then [a1] else []) @ (if R then [a2] else []) @
      (if H then [a3] else []) @ (if M then [a4] else [])"
    by (simp add: at)
  have range: "25 \<le> q \<and> q \<le> 90" if "q \<in> set qs" for q
    using that ms unfolding qs_def by (auto dest: milestones_bounds)
  have p1: "progress r1 = 10" and s1: "status r1 = ''processing''"
    by (simp_all add: r1_def mark_processing_def)
  have pf: "progress x = 100 \<or> progress x = 0" if "x \<in> set fin" for x
    using that unfolding fin
    by (cases res4) (auto simp: mark_completed_def mark_failed_def split: if_splits)
  have sf: "map progress (filter (\<lambda>x. status x \<noteq> ''failed'') fin) = [] \<or>
      map progress (filter (\<lambda>x. status x \<noteq> ''failed'') fin) = [100]"
    unfolding fin
    by (cases res4) (auto simp: mark_completed_def mark_failed_def)
  have bounded: "list_all (\<lambda>x. 0 \<le> progress x \<and> progress x \<le> 100)
      (r1 # map (\<lambda>p. r1\<lparr>progress := p\<rparr>) qs @ fin)"
    using range pf p1 by (fastforce simp: list_all_iff)
  have rising: "sorted (progress r # map progress (filter (\<lambda>x. status x \<noteq> ''failed'')
      (r1 # map (\<lambda>p. r1\<lparr>progress := p\<rparr>) qs @ fin)))"
    if one: "length ((if L then [a1] else []) @ (if R then [a2] else []) @
      (if H then [a3] else []) @ (if M then [a4] else [])) \<le> 1" and start: "progress r \<le> 10"
  proof -
    from one skip ms have "sorted qs"
      unfolding qs_def by (auto simp: milestones_sorted split: if_splits)
    moreover have "map progress (filter (\<lambda>x. status x \<noteq> ''failed'')
        (r1 # map (\<lambda>p. r1\<lparr>progress := p\<rparr>) qs @ fin)) =
        10 # qs @ map progress (filter (\<lambda>x. status x \<noteq> ''failed'') fin)"
      by (simp add: p1 s1 comp_def filter_map)
    ultimately show ?thesis
      using range start sf by (fastforce simp: sorted_append)
  qed
  have run: "list_all (\<lambda>x. 0 \<le> progress x \<and> progress x \<le> 100)
        (map snd (drop (length (writes w)) (writes w'))) \<and>
      (length (drop (length (attempts w)) (attempts w')) \<le> 1 \<and> progress r \<le> 10 \<longrightarrow>
         sorted (progress r # map progress (filter (\<lambda>x. status x \<noteq> ''failed'')
           (map snd (drop (length (writes w)) (writes w')))))) "
    unfolding stored tried using bounded rising by blast
  have luma: "sorted (map (progress \<circ> snd) (drop (length (writes w))
        (writes (snd (generate_with_luma_dream_machine cfg ev gid w)))))"
    by (rule adapter_progress_sorted [OF r]) (rule luma_climbs, simp)
  have repl: "sorted (map (progress \<circ> snd) (drop (length (writes w))
        (writes (snd (generate_with_replicate cfg ev gid w)))))"
    by (rule adapter_progress_sorted [OF r]) (rule replicate_climbs, simp)
  have hf: "sorted (map (progress \<circ> snd) (drop (length (writes w))
        (writes (snd (generate_with_huggingface cfg ev gid w)))))"
    by (rule adapter_progress_sorted [OF r]) (rule huggingface_climbs, simp)
  have mock: "sorted (map (progress \<circ> snd) (drop (length (writes w))
        (writes (snd (generate_enhanced_mock_video ev gid prompt_data w)))))"
    by (rule adapter_progress_sorted [OF r]) (rule mock_climbs, simp)
  from run luma repl hf mock show ?thesis
    unfolding Let_def w'_def by blast
qed

theorem progress_bounded_and_rising_within_attempt_witness:
  "map_of (generation_status one_queued) ''id-1'' =
     Some \<lparr>status = ''queued'', progress = 0, created_at = 1000, prompt_text = ''My Cat'',
           video_url = None, completed_at = None, error = None\<rparr> \<and>
   length (drop (length (attempts one_queued))
     (attempts (snd (process_video_generation no_keys offline ''id-1'' cat_prompt one_queued)))) \<le> 1 \<and>
   map progress (map snd (drop (length (writes one_queued))
     (writes (snd (process_video_generation no_keys offline ''id-1'' cat_prompt one_queued)))))
     = [10, 60, 80, 100] \<and>
   sorted (0 # map progress (filter (\<lambda>x. status x \<noteq> ''failed'')
     (map snd (drop (length (writes one_queued))
       (writes (snd (process_video_generation no_keys offline ''id-1'' cat_prompt one_queued)))))))"
proof -
  let ?r = "\<lparr>status = ''queued'', progress = 0, created_at = 1000, prompt_text = ''My Cat'',
           video_url = None, completed_at = None, error = None\<rparr>"
  have r: "map_of (generation_status one_queued) ''id-1'' = Some ?r"
    by code_simp
  have one: "length (drop (length (attempts one_queued))
     (attempts (snd (process_video_generation no_keys offline ''id-1'' cat_prompt one_queued)))) \<le> 1"
    by code_simp
  have vals: "map progress (map snd (drop (length (writes one_queued))
     (writes (snd (process_video_generation no_keys offline ''id-1'' cat_prompt one_queued)))))
     = [10, 60, 80, 100]"
    by code_simp
  have start: "progress ?r \<le> 10"
    by simp
  from progress_bounded_and_rising_within_attempt [OF r, of no_keys offline cat_prompt] one start
  have "sorted (progress ?r # map progress (filter (\<lambda>x. status x \<noteq> ''failed'')
     (map snd (drop (length (writes one_queued))
       (writes (snd (process_video_generation no_keys offline ''id-1'' cat_prompt one_queued)))))))"
    unfolding Let_def by blast
  with r one vals show ?thesis by simp
qed

section \<open>What every reachable state satisfies\<close>

lemma set_update_subset: "set (AList.update k v xs) \<subseteq> insert (k, v) (set xs)"
  by (induction xs) auto

lemma distinct_without: "distinct xs \<Longrightarrow> distinct (take i xs @ drop (Suc i) xs)"
proof (induction xs arbitrary: i)
  case Nil
  show ?case by simp
next
  case (Cons x xs)
  show ?case
  proof (cases i)
    case 0
    with Cons.prems show ?thesis by simp
  next
    case (Suc k)
    with Cons.prems Cons.IH [of k] show ?thesis
      by (auto dest: in_set_takeD in_set_dropD)
  qed
qed

lemma soundI:
  assumes "distinct (map fst (generation_status w))"
    and "distinct (map fst (background_tasks w))"
    and "set (generation_status w) \<subseteq> set (writes w)"
    and "fst ` set (background_tasks w) \<subseteq> fst ` set (writes w)"
    and "\<And>g p x. (g, p) \<in> set (background_tasks w) \<Longrightarrow> map_of (generation_status w) g = Some x
        \<Longrightarrow> status x = ''queued''"
    and "\<And>g x y. (g, x) \<in> set (writes w) \<Longrightarrow> (g, y) \<in> set (writes w)
        \<Longrightarrow> prompt_text x = prompt_text y \<and> created_at x = created_at y"
    and "\<And>g x. (g, x) \<in> set (writes w) \<Longrightarrow> video_url x \<noteq> None \<Longrightarrow> status x = ''completed''"
  shows "sound w"
  unfolding sound_def
proof (intro conjI allI impI)
  show "distinct (map fst (generation_status w))" by (rule assms(1))
  show "distinct (map fst (background_tasks w))" by (rule assms(2))
  show "set (generation_status w) \<subseteq> set (writes w)" by (rule assms(3))
  show "fst ` set (background_tasks w) \<subseteq> fst ` set (writes w)" by (rule assms(4))
  show "status x = ''queued''"
    if "(g, p) \<in> set (background_tasks w) \<and> map_of (generation_status w) g = Some x" for g p x
    using that assms(5) [of g p x] by simp
  show "prompt_text x = prompt_text y"
    if "(g, x) \<in> set (writes w) \<and> (g, y) \<in> set (writes w)" for g x y
    using that assms(6) [of g x y] by simp
  show "created_at x = created_at y"
    if "(g, x) \<in> set (writes w) \<and> (g, y) \<in> set (writes w)" for g x y
    using that assms(6) [of g x y] by simp
  show "status x = ''completed''"
    if "(g, x) \<in> set (writes w) \<and> video_url x \<noteq> None" for g x
    using that assms(7) [of g x] by simp
qed

lemma soundD:
  assumes "sound w"
  shows "distinct (map fst (generation_status w))"
    and "distinct (map fst (background_tasks w))"
    and "set (generation_status w) \<subseteq> set (writes w)"
    and "fst ` set (background_tasks w) \<subseteq> fst ` set (writes w)"
    and "\<And>g p x. (g, p) \<in> set (background_tasks w) \<Longrightarrow> map_of (generation_status w) g = Some x
        \<Longrightarrow> status x = ''queued''"
    and "\<And>g x y. (g, x) \<in> set (writes w) \<Longrightarrow> (g, y) \<in> set (writes w)
        \<Longrightarrow> prompt_text x = prompt_text y \<and> created_at x = created_at y"
    and "\<And>g x. (g, x) \<in> set (writes w) \<Longrightarrow> video_url x \<noteq> None \<Longrightarrow> status x = ''completed''"
proof -
  from assms have c: "distinct (map fst (generation_status w)) \<and>
     distinct (map fst (background_tasks w)) \<and>
     set (generation_status w) \<subseteq> set (writes w) \<and>
     fst ` set (background_tasks w) \<subseteq> fst ` set (writes w) \<and>
     (\<forall>g p x. (g, p) \<in> set (background_tasks w) \<and> map_of (generation_status w) g = Some x
        \<longrightarrow> status x = ''queued'') \<and>
     (\<forall>g x y. (g, x) \<in> set (writes w) \<and> (g, y) \<in> set (writes w)
        \<longrightarrow> prompt_text x = prompt_text y \<and> created_at x = created_at y) \<and>
     (\<forall>g x. (g, x) \<in> set (writes w) \<and> video_url x \<noteq> None \<longrightarrow> status x = ''completed'')"
    unfolding sound_def .
  from c show "distinct (map fst (generation_status w))" by (elim conjE)
  from c show "distinct (map fst (background_tasks w))" by (elim conjE)
  from c show "set (generation_status w) \<subseteq> set (writes w)" by (elim conjE)
  from c show "fst ` set (background_tasks w) \<subseteq> fst ` set (writes w)" by (elim conjE)
  from c have 5: "\<forall>g p x. (g, p) \<in> set (background_tasks w) \<and> map_of (generation_status w) g = Some x
        \<longrightarrow> status x = ''queued''" by (elim conjE)
  from c have 6: "\<forall>g x y. (g, x) \<in> set (writes w) \<and> (g, y) \<in> set (writes w)
        \<longrightarrow> prompt_text x = prompt_text y \<and> created_at x = created_at y" by (elim conjE)
  from c have 7: "\<forall>g x. (g, x) \<in> set (writes w) \<and> video_url x \<noteq> None
        \<longrightarrow> status x = ''completed''" by (elim conjE)
  show "\<And>g p x. (g, p) \<in> set (background_tasks w) \<Longrightarrow> map_of (generation_status w) g = Some x
        \<Longrightarrow> status x = ''queued''"
    using 5 by blast
  show "\<And>g x y. (g, x) \<in> set (writes w) \<Longrightarrow> (g, y) \<in> set (writes w)
        \<Longrightarrow> prompt_text x = prompt_text y \<and> created_at x = created_at y"
    using 6 by blast
  show "\<And>g x. (g, x) \<in> set (writes w) \<Longrightarrow> video_url x \<noteq> None \<Longrightarrow> status x = ''completed''"
    using 7 by blast
qed

lemma sound_init: "sound init_world"
  by (rule soundI) (simp_all add: init_world_def)

text \<open>An accepted request adds a queued record under a fresh id, and its task.\<close>

lemma sound_post:
  assumes s: "sound w" and f: "gid \<notin> fst ` set (writes w)"
    and q: "status x = ''queued''" "video_url x = None"
  shows "sound (w\<lparr>generation_status := AList.update gid x (generation_status w),
                 writes := writes w @ [(gid, x)],
                 background_tasks := background_tasks w @ [(gid, p)]\<rparr>)"
    (is "sound ?w'")
proof (rule soundI)
  note d = soundD [OF s]
  from d(4) f have nt: "gid \<notin> fst ` set (background_tasks w)"
    by blast
  from f have nw: "\<And>y. (gid, y) \<notin> set (writes w)"
    by force
  from d(1) show "distinct (map fst (generation_status ?w'))"
    by (simp add: AList.distinct_update)
  from d(2) nt show "distinct (map fst (background_tasks ?w'))"
    by simp
  from d(3) set_update_subset [of gid x "generation_status w"]
  show "set (generation_status ?w') \<subseteq> set (writes ?w')"
    by auto
  from d(4) show "fst ` set (background_tasks ?w') \<subseteq> fst ` set (writes ?w')"
    by auto
  show "status y = ''queued''"
    if "(g, p') \<in> set (background_tasks ?w')" "map_of (generation_status ?w') g = Some y"
    for g p' y
  proof (cases "g = gid")
    case True
    with that(2) q(1) show ?thesis by (simp add: AList.update_conv')
  next
    case False
    with that have "(g, p') \<in> set (background_tasks w)" "map_of (generation_status w) g = Some y"
      by (simp_all add: AList.update_conv')
    then show ?thesis by (rule d(5))
  qed
  show "prompt_text y = prompt_text z \<and> created_at y = created_at z"
    if "(g, y) \<in> set (writes ?w')" "(g, z) \<in> set (writes ?w')" for g y z
    using that nw d(6) [of g y z] by auto
  show "status y = ''completed''"
    if "(g, y) \<in> set (writes ?w')" "video_url y \<noteq> None" for g y
    using that q(2) d(7) [of g y] by auto
qed

text \<open>Cleanup keeps some of the dict's entries.\<close>

lemma sound_filter:
  assumes s: "sound w"
  shows "sound (w\<lparr>generation_status := filter P (generation_status w)\<rparr>)" (is "sound ?w'")
proof (rule soundI)
  note d = soundD [OF s]
  from d(1) show dist: "distinct (map fst (generation_status ?w'))"
    by (simp add: distinct_map_filter)
  from d(2) show "distinct (map fst (background_tasks ?w'))"
    by simp
  from d(3) show "set (generation_status ?w') \<subseteq> set (writes ?w')"
    by auto
  from d(4) show "fst ` set (background_tasks ?w') \<subseteq> fst ` set (writes ?w')"
    by simp
  show "status y = ''queued''"
    if "(g, p') \<in> set (background_tasks ?w')" "map_of (generation_status ?w') g = Some y"
    for g p' y
  proof -
    from that(2) dist have "(g, y) \<in> set (generation_status w)"
      by (auto dest: map_of_SomeD)
    with d(1) have "map_of (generation_status w) g = Some y"
      by simp
    with that(1) d(5) [of g p' y] show ?thesis by simp
  qed
  show "prompt_text y = prompt_text z \<and> created_at y = created_at z"
    if "(g, y) \<in> set (writes ?w')" "(g, z) \<in> set (writes ?w')" for g y z
    using that d(6) [of g y z] by simp
  show "status y = ''completed''"
    if "(g, y) \<in> set (writes ?w')" "video_url y \<noteq> None" for g y
    using that d(7) [of g y] by simp
qed


text \<open>A task is taken off the queue.\<close>

lemma sound_take_task:
  assumes s: "sound w"
  shows "sound (w\<lparr>background_tasks := take i (background_tasks w) @ drop (Suc i) (background_tasks w)\<rparr>)"
proof -
  note d = soundD [OF s]
  define ts where "ts = take i (background_tasks w) @ drop (Suc i) (background_tasks w)"
  have sub: "set ts \<subseteq> set (background_tasks w)"
    unfolding ts_def by (auto dest: in_set_takeD in_set_dropD)
  have "map fst ts =
      take i (map fst (background_tasks w)) @ drop (Suc i) (map fst (background_tasks w))"
    unfolding ts_def by (simp add: take_map drop_map)
  with distinct_without [OF d(2), of i] have dts: "distinct (map fst ts)"
    by simp
  have "sound (w\<lparr>background_tasks := ts\<rparr>)" (is "sound ?w'")
  proof (rule soundI)
    from d(1) show "distinct (map fst (generation_status ?w'))"
      by simp
    from dts show "distinct (map fst (background_tasks ?w'))"
      by simp
    from d(3) show "set (generation_status ?w') \<subseteq> set (writes ?w')"
      by simp
    from d(4) sub show "fst ` set (background_tasks ?w') \<subseteq> fst ` set (writes ?w')"
      by simp blast
    show "status y = ''queued''"
      if "(g, p') \<in> set (background_tasks ?w')" "map_of (generation_status ?w') g = Some y"
      for g p' y
      using that sub d(5) [of g p' y] by auto
    show "prompt_text y = prompt_text z \<and> created_at y = created_at z"
      if "(g, y) \<in> set (writes ?w')" "(g, z) \<in> set (writes ?w')" for g y z
      using that d(6) [of g y z] by simp
    show "status y = ''completed''"
      if "(g, y) \<in> set (writes ?w')" "video_url y \<noteq> None" for g y
      using that d(7) [of g y] by simp
  qed
  then show ?thesis by (simp add: ts_def)
qed


text \<open>A task runs on a record that is in the dict and has no other task queued.\<close>


lemma sound_task_run:
  assumes s: "sound w" and r: "map_of (generation_status w) gid = Some r"
    and nt: "gid \<notin> fst ` set (background_tasks w)"
    and xs: "\<And>x. x \<in> set xs \<Longrightarrow> prompt_text x = prompt_text r \<and> created_at x = created_at r \<and>
        (video_url x \<noteq> None \<longrightarrow> status x = ''completed'')"
    and fin: "final \<in> set xs"
  shows "sound (w\<lparr>generation_status := AList.update gid final (generation_status w),
                 writes := writes w @ map (Pair gid) xs, attempts := a\<rparr>)"
    (is "sound ?w'")
proof (rule soundI)
  note d = soundD [OF s]
  have gs: "generation_status ?w' = AList.update gid final (generation_status w)"
    and bt: "background_tasks ?w' = background_tasks w"
    and wr: "set (writes ?w') = set (writes w) \<union> Pair gid ` set xs"
    by simp_all
  from r have "(gid, r) \<in> set (generation_status w)"
    by (rule map_of_SomeD)
  with d(3) have rw: "(gid, r) \<in> set (writes w)"
    by blast
  have new: "y \<in> set xs" if "(g, y) \<in> set (writes ?w')" "(g, y) \<notin> set (writes w)" for g y
    using that unfolding wr by blast
  have other: "(g, y) \<in> set (writes w)" if "(g, y) \<in> set (writes ?w')" "g \<noteq> gid" for g y
    using that unfolding wr by blast
  from d(1) show "distinct (map fst (generation_status ?w'))"
    unfolding gs by (rule AList.distinct_update)
  from d(2) show "distinct (map fst (background_tasks ?w'))"
    unfolding bt .
  from d(3) fin set_update_subset [of gid final "generation_status w"]
  show "set (generation_status ?w') \<subseteq> set (writes ?w')"
    unfolding gs wr by blast
  from d(4) show "fst ` set (background_tasks ?w') \<subseteq> fst ` set (writes ?w')"
    unfolding bt wr by blast
  show "status y = ''queued''"
    if "(g, p') \<in> set (background_tasks ?w')" "map_of (generation_status ?w') g = Some y"
    for g p' y
  proof -
    from that(1) have t: "(g, p') \<in> set (background_tasks w)"
      unfolding bt .
    with nt have "g \<noteq> gid" by force
    with that(2) have "map_of (generation_status w) g = Some y"
      unfolding gs by (simp add: AList.update_conv')
    with t show ?thesis by (rule d(5))
  qed
  have old: "prompt_text y = prompt_text r \<and> created_at y = created_at r"
    if "(gid, y) \<in> set (writes ?w')" for y
  proof (cases "(gid, y) \<in> set (writes w)")
    case True
    from d(6) [OF this rw] show ?thesis .
  next
    case False
    with that have "y \<in> set xs" by (rule new)
    then show ?thesis using xs [of y] by blast
  qed
  show "prompt_text y = prompt_text z \<and> created_at y = created_at z"
    if "(g, y) \<in> set (writes ?w')" "(g, z) \<in> set (writes ?w')" for g y z
  proof (cases "g = gid")
    case True
    from that(1) True have "(gid, y) \<in> set (writes ?w')" by blast
    then have y: "prompt_text y = prompt_text r \<and> created_at y = created_at r"
      by (rule old)
    from that(2) True have "(gid, z) \<in> set (writes ?w')" by blast
    then have z: "prompt_text z = prompt_text r \<and> created_at z = created_at r"
      by (rule old)
    from y z show ?thesis by metis
  next
    case False
    from that(1) False have "(g, y) \<in> set (writes w)" by (rule other)
    moreover from that(2) False have "(g, z) \<in> set (writes w)" by (rule other)
    ultimately show ?thesis by (rule d(6))
  qed
  show "status y = ''completed''"
    if "(g, y) \<in> set (writes ?w')" "video_url y \<noteq> None" for g y
  proof (cases "(g, y) \<in> set (writes w)")
    case True
    from d(7) [OF this that(2)] show ?thesis .
  next
    case False
    with that(1) have "y \<in> set xs" by (rule new)
    with that(2) show ?thesis using xs [of y] by blast
  qed
qed


lemma process_absent:
  "map_of (generation_status w) gid = None \<Longrightarrow>
   process_video_generation cfg ev gid prompt_data w = (Inl (KeyError gid), w)"
  by (simp add: process_video_generation_def process_try_def try_except_def then_do_def
      update_record_def)

text \<open>What one run stores, when the record is in the dict and has no \<open>video_url\<close> yet.\<close>

lemma process_effect:
  assumes r: "map_of (generation_status w) gid = Some r" and nv: "video_url r = None"
  shows "\<exists>xs final a.
     snd (process_video_generation cfg ev gid prompt_data w) =
       w\<lparr>generation_status := AList.update gid final (generation_status w),
         writes := writes w @ map (Pair gid) xs, attempts := a\<rparr> \<and>
     final \<in> set xs \<and>
     (\<forall>x \<in> set xs. prompt_text x = prompt_text r \<and> created_at x = created_at r \<and>
        (video_url x \<noteq> None \<longrightarrow> status x = ''completed''))"
proof -
  define w' where "w' = snd (process_video_generation cfg ev gid prompt_data w)"
  define r1 where "r1 = mark_processing r"
  from process_outcome [OF r, of cfg ev prompt_data]
  obtain qs fin res4 where
    gs: "generation_status w' = AList.update gid
           (last (r1 # map (\<lambda>p. r1\<lparr>progress := p\<rparr>) qs @ fin)) (generation_status w)"
    and wr: "writes w' = writes w @ map (Pair gid) (r1 # map (\<lambda>p. r1\<lparr>progress := p\<rparr>) qs @ fin)"
    and bt: "background_tasks w' = background_tasks w"
    and fin: "fin = (case res4 of Inr url \<Rightarrow> [mark_completed url (time_completed ev) r]
                 | Inl e \<Rightarrow> if is_Exception e then [mark_failed e r] else [])"
    unfolding Let_def w'_def r1_def by blast
  define xs where "xs = r1 # map (\<lambda>p. r1\<lparr>progress := p\<rparr>) qs @ fin"
  have eq: "w' = w\<lparr>generation_status := AList.update gid (last xs) (generation_status w),
         writes := writes w @ map (Pair gid) xs, attempts := attempts w'\<rparr>"
    by (rule world.equality) (simp_all add: gs wr bt xs_def)
  have f: "prompt_text x = prompt_text r \<and> created_at x = created_at r \<and>
      (video_url x \<noteq> None \<longrightarrow> status x = ''completed'')" if "x \<in> set fin" for x
    using that nv unfolding fin
    by (cases res4) (auto simp: mark_completed_def mark_failed_def split: if_splits)
  have p: "prompt_text x = prompt_text r \<and> created_at x = created_at r \<and>
      (video_url x \<noteq> None \<longrightarrow> status x = ''completed'')" if "x \<in> set xs" for x
    using that f nv unfolding xs_def r1_def by (auto simp: mark_processing_def)
  have "xs \<noteq> []"
    by (simp add: xs_def)
  then have "last xs \<in> set xs"
    by (rule last_in_set)
  with eq p show ?thesis
    unfolding w'_def by blast
qed

lemma task_not_queued_twice:
  assumes "distinct (map fst ts)" and "i < length ts"
  shows "fst (ts ! i) \<notin> fst ` set (take i ts @ drop (Suc i) ts)"
proof -
  from assms(2) have "map fst ts = take i (map fst ts) @ fst (ts ! i) # drop (Suc i) (map fst ts)"
    using id_take_nth_drop [of i "map fst ts"] by simp
  with assms(1) have "distinct (take i (map fst ts) @ fst (ts ! i) # drop (Suc i) (map fst ts))"
    by simp
  then have "fst (ts ! i) \<notin> set (take i (map fst ts) @ drop (Suc i) (map fst ts))"
    by auto
  then show ?thesis
    by (simp add: take_map drop_map image_Un)
qed

subsection \<open>One event\<close>

lemma get_generation_status_reads: "snd (get_generation_status gid w) = w"
  by (simp add: get_generation_status_def raise_def ret_def then_do_def lift_def
      split: option.splits sum.splits)

lemma generate_video_effect:
  "snd (generate_video cfg prompt_data gid now w) = w \<or>
   snd (generate_video cfg prompt_data gid now w) =
     w\<lparr>generation_status := AList.update gid
          \<lparr>status = ''queued'', progress = 0, created_at = now,
           prompt_text = prompt prompt_data, video_url = None,
           completed_at = None, error = None\<rparr> (generation_status w),
       writes := writes w @ [(gid,
          \<lparr>status = ''queued'', progress = 0, created_at = now,
           prompt_text = prompt prompt_data, video_url = None,
           completed_at = None, error = None\<rparr>)],
       background_tasks := background_tasks w @ [(gid, prompt_data)]\<rparr>"
  by (simp add: generate_video_def raise_def then_do_def store_record_def ret_def)

lemma cleanup_effect:
  assumes "distinct (map fst (generation_status w))"
  shows "snd (cleanup_old_generations now w) =
     w\<lparr>generation_status :=
         [x \<leftarrow> generation_status w. \<not> now - created_at (snd x) > 24 * 60 * 60]\<rparr>"
  by (simp add: cleanup_result [OF assms])

lemma run_background_task_effect:
  assumes s: "sound w"
  shows "snd (run_background_task cfg ev i w) = w \<or>
    (\<exists>gid prompt_data. i < length (background_tasks w) \<and>
       background_tasks w ! i = (gid, prompt_data) \<and>
       (let wt = w\<lparr>background_tasks :=
                    take i (background_tasks w) @ drop (Suc i) (background_tasks w)\<rparr>
        in sound wt \<and> gid \<notin> fst ` set (background_tasks wt) \<and>
           (snd (run_background_task cfg ev i w) = wt \<or>
            (\<exists>r xs final a. map_of (generation_status w) gid = Some r \<and>
               snd (run_background_task cfg ev i w) =
                 wt\<lparr>generation_status := AList.update gid final (generation_status w),
                    writes := writes w @ map (Pair gid) xs, attempts := a\<rparr> \<and>
               final \<in> set xs \<and>
               (\<forall>x \<in> set xs. prompt_text x = prompt_text r \<and> created_at x = created_at r \<and>
                  (video_url x \<noteq> None \<longrightarrow> status x = ''completed''))))))"
proof (cases "i < length (background_tasks w)")
  case False
  then show ?thesis by (simp add: run_background_task_def ret_def)
next
  case True
  note d = soundD [OF s]
  obtain gid prompt_data where t: "background_tasks w ! i = (gid, prompt_data)"
    by (cases "background_tasks w ! i")
  define wt where "wt = w\<lparr>background_tasks :=
                    take i (background_tasks w) @ drop (Suc i) (background_tasks w)\<rparr>"
  have run: "run_background_task cfg ev i w = process_video_generation cfg ev gid prompt_data wt"
    using True t by (simp add: run_background_task_def wt_def)
  have swt: "sound wt"
    unfolding wt_def by (rule sound_take_task [OF s])
  from task_not_queued_twice [OF d(2) True] t
  have nq: "gid \<notin> fst ` set (background_tasks wt)"
    by (simp add: wt_def)
  from True t have queued: "(gid, prompt_data) \<in> set (background_tasks w)"
    by (metis nth_mem)
  have same: "generation_status wt = generation_status w" "writes wt = writes w"
    by (simp_all add: wt_def)
  have "snd (run_background_task cfg ev i w) = wt \<or>
      (\<exists>r xs final a. map_of (generation_status w) gid = Some r \<and>
         snd (run_background_task cfg ev i w) =
           wt\<lparr>generation_status := AList.update gid final (generation_status w),
              writes := writes w @ map (Pair gid) xs, attempts := a\<rparr> \<and>
         final \<in> set xs \<and>
         (\<forall>x \<in> set xs. prompt_text x = prompt_text r \<and> created_at x = created_at r \<and>
            (video_url x \<noteq> None \<longrightarrow> status x = ''completed'')))"
  proof (cases "map_of (generation_status w) gid")
    case None
    then have "map_of (generation_status wt) gid = None"
      by (simp add: same)
    from process_absent [OF this] show ?thesis
      by (simp add: run)
  next
    case (Some r)
    from d(5) [OF queued Some] have q: "status r = ''queued''" .
    from Some have "(gid, r) \<in> set (generation_status w)"
      by (rule map_of_SomeD)
    with d(3) have rw: "(gid, r) \<in> set (writes w)"
      by blast
    have nv: "video_url r = None"
    proof (rule ccontr)
      assume "video_url r \<noteq> None"
      from d(7) [OF rw this] q show False by simp
    qed
    from Some have "map_of (generation_status wt) gid = Some r"
      by (simp add: same)
    from process_effect [OF this nv, of cfg ev prompt_data] Some show ?thesis
      unfolding run same by blast
  qed
  with True t swt nq show ?thesis
    unfolding Let_def wt_def by blast
qed

lemma sound_handle:
  assumes s: "sound w" and f: "fresh_id e w"
  shows "sound (handle cfg e w)"
proof (cases e)
  case (PostGenerateVideo prompt_data gid now)
  with f have "gid \<notin> fst ` set (writes w)"
    by simp
  from sound_post [OF s this, of _ prompt_data] generate_video_effect [of cfg prompt_data gid now w] s
  show ?thesis
    unfolding PostGenerateVideo by (auto simp del: AList.update.simps)
next
  case (GetStatus gid)
  with s show ?thesis
    by (simp add: get_generation_status_reads)
next
  case GetHealth
  with s show ?thesis
    by (simp add: health_check_def ret_def)
next
  case (DeleteCleanup now)
  from soundD(1) [OF s] have "handle cfg e w =
      w\<lparr>generation_status :=
         [x \<leftarrow> generation_status w. \<not> now - created_at (snd x) > 24 * 60 * 60]\<rparr>"
    unfolding DeleteCleanup by (simp add: cleanup_effect)
  with sound_filter [OF s] show ?thesis
    by simp
next
  case (RunTask ev i)
  from run_background_task_effect [OF s, of cfg ev i]
  consider "snd (run_background_task cfg ev i w) = w"
    | wt where "sound wt" "snd (run_background_task cfg ev i w) = wt"
    | gid wt r xs final a where "sound wt" "gid \<notin> fst ` set (background_tasks wt)"
      "generation_status wt = generation_status w" "writes wt = writes w"
      "map_of (generation_status w) gid = Some r"
      "snd (run_background_task cfg ev i w) =
         wt\<lparr>generation_status := AList.update gid final (generation_status w),
            writes := writes w @ map (Pair gid) xs, attempts := a\<rparr>"
      "final \<in> set xs"
      "\<forall>x \<in> set xs. prompt_text x = prompt_text r \<and> created_at x = created_at r \<and>
                  (video_url x \<noteq> None \<longrightarrow> status x = ''completed'')"
    unfolding Let_def by (elim disjE exE conjE) (blast | simp)+
  then show ?thesis
  proof cases
    case 1
    with s show ?thesis by (simp add: RunTask)
  next
    case 2
    then show ?thesis by (simp add: RunTask)
  next
    case 3
    from 3(5) have "map_of (generation_status wt) gid = Some r"
      by (simp add: 3(3))
    from sound_task_run [OF 3(1) this 3(2), of xs final a] 3(7,8)
    have "sound (wt\<lparr>generation_status := AList.update gid final (generation_status wt),
                 writes := writes wt @ map (Pair gid) xs, attempts := a\<rparr>)"
      by blast
    with 3(3,4,6) show ?thesis by (simp add: RunTask)
  qed
qed

lemma sound_serve: "sound w \<Longrightarrow> uuids_fresh cfg es w \<Longrightarrow> sound (serve cfg es w)"
  by (induction es arbitrary: w) (simp_all add: sound_handle)

section \<open>After a terminal state\<close>

lemma lookup_after_filter:
  assumes "distinct (map fst d)"
  shows "map_of (filter keep d) gid = Some r \<longleftrightarrow> map_of d gid = Some r \<and> keep (gid, r)"
  using assms by (simp add: map_of_eq_Some_iff distinct_map_filter)

lemma lookup_after_filter_cases:
  assumes d: "distinct (map fst d)"
  shows "map_of (filter keep d) gid = map_of d gid \<or>
     map_of (filter keep d) gid = None \<and> (\<exists>r. map_of d gid = Some r \<and> \<not> keep (gid, r))"
proof (cases "map_of (filter keep d) gid")
  case (Some r)
  with lookup_after_filter [OF d, of keep gid r] show ?thesis
    by simp
next
  case None
  show ?thesis
  proof (cases "map_of d gid")
    case (Some r)
    with None lookup_after_filter [OF d, of keep gid r] show ?thesis
      by simp
  qed (simp add: None)
qed

text \<open>
  Once an id has been stored and has no task queued, one event leaves its record as it
  is, unless the event is a cleanup that finds the record older than 24 hours.
\<close>

lemma handle_keeps_record:
  assumes s: "sound w" and f: "fresh_id e w"
    and nt: "gid \<notin> fst ` set (background_tasks w)"
    and known: "gid \<in> fst ` set (writes w)"
  shows "(map_of (generation_status (handle cfg e w)) gid = map_of (generation_status w) gid \<or>
      map_of (generation_status (handle cfg e w)) gid = None \<and>
      (\<exists>now r. e = DeleteCleanup now \<and> map_of (generation_status w) gid = Some r \<and>
         now - created_at r > 24 * 60 * 60)) \<and>
     gid \<notin> fst ` set (background_tasks (handle cfg e w)) \<and>
     gid \<in> fst ` set (writes (handle cfg e w))"
proof (cases e)
  case (PostGenerateVideo prompt_data g now)
  with f known have ne: "g \<noteq> gid"
    by auto
  from generate_video_effect [of cfg prompt_data g now w] ne nt known show ?thesis
    unfolding PostGenerateVideo by (auto simp: AList.update_conv' simp del: AList.update.simps)
next
  case (GetStatus g)
  with nt known show ?thesis
    by (simp add: get_generation_status_reads)
next
  case GetHealth
  with nt known show ?thesis
    by (simp add: health_check_def ret_def)
next
  case (DeleteCleanup now)
  note d = soundD(1) [OF s]
  have w': "handle cfg e w = w\<lparr>generation_status :=
         [x \<leftarrow> generation_status w. \<not> now - created_at (snd x) > 24 * 60 * 60]\<rparr>"
    unfolding DeleteCleanup by (simp add: cleanup_effect [OF d])
  show ?thesis
    unfolding w' using nt known DeleteCleanup
    using lookup_after_filter_cases [OF d, of "\<lambda>x. \<not> now - created_at (snd x) > 24 * 60 * 60" gid]
    by auto
next
  case (RunTask ev i)
  from run_background_task_effect [OF s, of cfg ev i]
  consider "snd (run_background_task cfg ev i w) = w"
    | "snd (run_background_task cfg ev i w) =
         w\<lparr>background_tasks := take i (background_tasks w) @ drop (Suc i) (background_tasks w)\<rparr>"
    | g p xs final a where "i < length (background_tasks w)" "background_tasks w ! i = (g, p)"
      "snd (run_background_task cfg ev i w) =
         w\<lparr>background_tasks := take i (background_tasks w) @ drop (Suc i) (background_tasks w),
           generation_status := AList.update g final (generation_status w),
           writes := writes w @ map (Pair g) xs, attempts := a\<rparr>"
    unfolding Let_def by (elim disjE exE conjE) (blast | simp)+
  then show ?thesis
  proof cases
    case 1
    with nt known show ?thesis by (simp add: RunTask)
  next
    case 2
    have "set (take i (background_tasks w) @ drop (Suc i) (background_tasks w))
        \<subseteq> set (background_tasks w)"
      by (auto dest: in_set_takeD in_set_dropD)
    with nt have "gid \<notin> fst ` set (take i (background_tasks w) @ drop (Suc i) (background_tasks w))"
      by blast
    with known show ?thesis by (simp add: RunTask 2)
  next
    case 3
    from 3(1,2) have "(g, p) \<in> set (background_tasks w)"
      by (metis nth_mem)
    with nt have ne: "g \<noteq> gid" by force
    have "set (take i (background_tasks w) @ drop (Suc i) (background_tasks w))
        \<subseteq> set (background_tasks w)"
      by (auto dest: in_set_takeD in_set_dropD)
    with nt have "gid \<notin> fst ` set (take i (background_tasks w) @ drop (Suc i) (background_tasks w))"
      by blast
    with known ne show ?thesis
      by (simp add: RunTask 3(3) AList.update_conv' image_Un)
  qed
qed

lemma serve_keeps_absent:
  assumes "sound w" and "uuids_fresh cfg es w"
    and "gid \<notin> fst ` set (background_tasks w)" and "gid \<in> fst ` set (writes w)"
    and "map_of (generation_status w) gid = None"
  shows "map_of (generation_status (serve cfg es w)) gid = None"
  using assms
proof (induction es arbitrary: w)
  case Nil
  then show ?case by simp
next
  case (Cons e es)
  from Cons.prems have f: "fresh_id e w" and rest: "uuids_fresh cfg es (handle cfg e w)"
    by simp_all
  from handle_keeps_record [OF Cons.prems(1) f Cons.prems(3,4), of cfg] Cons.prems(5)
  have "map_of (generation_status (handle cfg e w)) gid = None"
    "gid \<notin> fst ` set (background_tasks (handle cfg e w))"
    "gid \<in> fst ` set (writes (handle cfg e w))"
    by auto
  from Cons.IH [OF sound_handle [OF Cons.prems(1) f] rest this(2,3,1)] show ?case
    by simp
qed

lemma serve_keeps_record:
  assumes "sound w" and "uuids_fresh cfg es w"
    and "gid \<notin> fst ` set (background_tasks w)" and "gid \<in> fst ` set (writes w)"
    and "map_of (generation_status w) gid = Some r"
  shows "map_of (generation_status (serve cfg es w)) gid = Some r \<or>
     map_of (generation_status (serve cfg es w)) gid = None \<and>
     list_ex (\<lambda>now. now - created_at r > 24 * 60 * 60) (cleanup_times es)"
  using assms
proof (induction es arbitrary: w)
  case Nil
  then show ?case by simp
next
  case (Cons e es)
  from Cons.prems have f: "fresh_id e w" and rest: "uuids_fresh cfg es (handle cfg e w)"
    by simp_all
  note s' = sound_handle [OF Cons.prems(1) f, of cfg]
  from handle_keeps_record [OF Cons.prems(1) f Cons.prems(3,4), of cfg]
  have nt: "gid \<notin> fst ` set (background_tasks (handle cfg e w))"
    and known: "gid \<in> fst ` set (writes (handle cfg e w))"
    and "map_of (generation_status (handle cfg e w)) gid = Some r \<or>
      map_of (generation_status (handle cfg e w)) gid = None \<and>
      (\<exists>now. e = DeleteCleanup now \<and> now - created_at r > 24 * 60 * 60)"
    using Cons.prems(5) by auto
  then show ?case
  proof (elim disjE conjE exE)
    assume "map_of (generation_status (handle cfg e w)) gid = Some r"
    from Cons.IH [OF s' rest nt known this] show ?thesis
      by (cases e) auto
  next
    fix now
    assume gone: "map_of (generation_status (handle cfg e w)) gid = None"
      and e: "e = DeleteCleanup now" and old: "now - created_at r > 24 * 60 * 60"
    from serve_keeps_absent [OF s' rest nt known gone] old show ?thesis
      by (simp add: e)
  qed
qed

text \<open>
  C2, as the claim states it, fails once cleanup has removed the record: the status
  read that returned the terminal status before is answered with 404.
\<close>

theorem cleanup_forgets_terminal_record:
  "uuids_fresh no_keys (one_generation offline @ [DeleteCleanup 90000]) init_world \<and>
   fst (get_generation_status ''id-1'' (serve no_keys (one_generation offline) init_world)) =
     Inr \<lparr>sr_status = ''completed'', sr_progress = 100, sr_video_url = Some cat_url,
          sr_error = None\<rparr> \<and>
   fst (get_generation_status ''id-1''
     (serve no_keys (one_generation offline @ [DeleteCleanup 90000]) init_world)) =
     Inl (HTTPException 404 ''Generation ID not found'')"
  by code_simp

text \<open>
  C2, amended. Once a record is \<open>completed\<close> or \<open>failed\<close>, whatever requests and task
  runs follow, the dict either still holds the very same record, and a status read
  returns what it returned before, or the record is gone, a cleanup request having
  found it older than 24 hours, and a status read is answered with 404.
\<close>

theorem terminal_record_is_final:
  assumes "uuids_fresh cfg es init_world"
    and "uuids_fresh cfg es' (serve cfg es init_world)"
    and "map_of (generation_status (serve cfg es init_world)) gid = Some r"
    and "status r = ''completed'' \<or> status r = ''failed''"
  shows "map_of (generation_status (serve cfg es' (serve cfg es init_world))) gid = Some r \<and>
       fst (get_generation_status gid (serve cfg es' (serve cfg es init_world))) =
         fst (get_generation_status gid (serve cfg es init_world))
     \<or> map_of (generation_status (serve cfg es' (serve cfg es init_world))) gid = None \<and>
       list_ex (\<lambda>now. now - created_at r > 24 * 60 * 60) (cleanup_times es') \<and>
       fst (get_generation_status gid (serve cfg es' (serve cfg es init_world))) =
         Inl (HTTPException 404 ''Generation ID not found'')"
proof -
  define w where "w = serve cfg es init_world"
  have s: "sound w"
    unfolding w_def by (rule sound_serve [OF sound_init assms(1)])
  note d = soundD [OF s]
  from assms(3) have r: "map_of (generation_status w) gid = Some r"
    by (simp add: w_def)
  then have "(gid, r) \<in> set (generation_status w)"
    by (rule map_of_SomeD)
  with d(3) have "(gid, r) \<in> set (writes w)"
    by blast
  then have known: "gid \<in> fst ` set (writes w)"
    by force
  have nt: "gid \<notin> fst ` set (background_tasks w)"
  proof
    assume "gid \<in> fst ` set (background_tasks w)"
    then obtain p where "(gid, p) \<in> set (background_tasks w)"
      by auto
    from d(5) [OF this r] assms(4) show False
      by simp
  qed
  from assms(2) have f: "uuids_fresh cfg es' w"
    by (simp add: w_def)
  have read: "fst (get_generation_status gid v) =
      (case map_of (generation_status v) gid of
         None \<Rightarrow> Inl (HTTPException 404 ''Generation ID not found'')
       | Some x \<Rightarrow> fst (then_do (lift (optional_str (video_url x))) (\<lambda>url.
            ret \<lparr>sr_status = status x, sr_progress = progress x,
                 sr_video_url = url, sr_error = error x\<rparr>) v))" for v
    by (simp add: get_generation_status_def raise_def split: option.splits)
  have same: "fst (then_do (lift x) f v) = fst (then_do (lift x) f v')"
    if "\<And>y. fst (f y v) = fst (f y v')"
    for x :: "exn + string option" and f :: "string option \<Rightarrow> status_response prog" and v v'
    using that by (cases x) (simp_all add: then_do_def lift_def)
  from serve_keeps_record [OF s f nt known r] show ?thesis
    unfolding w_def [symmetric]
    by (auto simp: read r intro!: same simp: ret_def)
qed

theorem terminal_record_is_final_witness:
  "uuids_fresh no_keys (one_generation offline) init_world \<and>
   uuids_fresh no_keys more_traffic (serve no_keys (one_generation offline) init_world) \<and>
   map_of (generation_status (serve no_keys (one_generation offline) init_world)) ''id-1'' =
     Some \<lparr>status = ''completed'', progress = 100, created_at = 1000, prompt_text = ''My Cat'',
           video_url = Some (JStr cat_url), completed_at = Some 1060, error = None\<rparr> \<and>
   cleanup_times more_traffic = [3000] \<and>
   map_of (generation_status
       (serve no_keys more_traffic (serve no_keys (one_generation offline) init_world))) ''id-1'' =
     Some \<lparr>status = ''completed'', progress = 100, created_at = 1000, prompt_text = ''My Cat'',
           video_url = Some (JStr cat_url), completed_at = Some 1060, error = None\<rparr> \<and>
   fst (get_generation_status ''id-1''
       (serve no_keys more_traffic (serve no_keys (one_generation offline) init_world))) =
     fst (get_generation_status ''id-1'' (serve no_keys (one_generation offline) init_world))"
proof -
  let ?r = "\<lparr>status = ''completed'', progress = 100, created_at = 1000, prompt_text = ''My Cat'',
           video_url = Some (JStr cat_url), completed_at = Some 1060, error = None\<rparr>"
  have f: "uuids_fresh no_keys (one_generation offline) init_world"
    by code_simp
  have f': "uuids_fresh no_keys more_traffic (serve no_keys (one_generation offline) init_world)"
    by code_simp
  have r: "map_of (generation_status (serve no_keys (one_generation offline) init_world)) ''id-1'' =
     Some ?r"
    by code_simp
  have t: "status ?r = ''completed'' \<or> status ?r = ''failed''"
    by simp
  have c: "cleanup_times more_traffic = [3000]"
    by (simp add: more_traffic_def)
  have young: "\<not> list_ex (\<lambda>now. now - created_at ?r > 24 * 60 * 60) (cleanup_times more_traffic)"
    by (simp add: c)
  from terminal_record_is_final [OF f f' r t] young
  have "map_of (generation_status
       (serve no_keys more_traffic (serve no_keys (one_generation offline) init_world))) ''id-1'' =
     Some ?r \<and>
     fst (get_generation_status ''id-1''
       (serve no_keys more_traffic (serve no_keys (one_generation offline) init_world))) =
     fst (get_generation_status ''id-1'' (serve no_keys (one_generation offline) init_world))"
    by blast
  with f f' r c show ?thesis by blast
qed

section \<open>The fields written at creation\<close>

text \<open>
  C10. In every state the service reaches, all values ever stored under one id, from
  the one stored at creation on, carry the same \<open>prompt_text\<close> and \<open>created_at\<close>, so an
  update changes at most the five other fields; no value stored with status \<open>failed\<close>
  carries a \<open>video_url\<close>; and every record the dict holds is one of the values stored.
\<close>

theorem prompt_and_created_at_fixed:
  assumes "uuids_fresh cfg es init_world"
  shows "(\<forall>g x y. (g, x) \<in> set (writes (serve cfg es init_world)) \<and>
            (g, y) \<in> set (writes (serve cfg es init_world))
          \<longrightarrow> prompt_text x = prompt_text y \<and> created_at x = created_at y) \<and>
     (\<forall>g x. (g, x) \<in> set (writes (serve cfg es init_world)) \<and> status x = ''failed''
          \<longrightarrow> video_url x = None) \<and>
     set (generation_status (serve cfg es init_world)) \<subseteq> set (writes (serve cfg es init_world))"
proof -
  have s: "sound (serve cfg es init_world)"
    by (rule sound_serve [OF sound_init assms])
  note d = soundD [OF s]
  have "video_url x = None"
    if "(g, x) \<in> set (writes (serve cfg es init_world))" "status x = ''failed''" for g x
  proof (rule ccontr)
    assume "video_url x \<noteq> None"
    from d(7) [OF that(1) this] that(2) show False by simp
  qed
  with d(3) d(6) show ?thesis by blast
qed

theorem prompt_and_created_at_fixed_witness:
  "uuids_fresh no_keys (one_generation stdout_closed) init_world \<and>
   map (\<lambda>(g, x). (g, status x, prompt_text x, created_at x, video_url x))
     (writes (serve no_keys (one_generation stdout_closed) init_world)) =
     [(''id-1'', ''queued'', ''My Cat'', 1000, None),
      (''id-1'', ''processing'', ''My Cat'', 1000, None),
      (''id-1'', ''processing'', ''My Cat'', 1000, None),
      (''id-1'', ''processing'', ''My Cat'', 1000, None),
      (''id-1'', ''failed'', ''My Cat'', 1000, None)] \<and>
   (''id-1'', \<lparr>status = ''failed'', progress = 0, created_at = 1000, prompt_text = ''My Cat'',
       video_url = None, completed_at = None,
       error = Some ''I/O operation on closed file.''\<rparr>)
     \<in> set (writes (serve no_keys (one_generation stdout_closed) init_world)) \<and>
   (''id-1'', \<lparr>status = ''queued'', progress = 0, created_at = 1000, prompt_text = ''My Cat'',
       video_url = None, completed_at = None, error = None\<rparr>)
     \<in> set (writes (serve no_keys (one_generation stdout_closed) init_world)) \<and>
   status \<lparr>status = ''failed'', progress = 0, created_at = 1000, prompt_text = ''My Cat'',
       video_url = None, completed_at = None,
       error = Some ''I/O operation on closed file.''\<rparr> = ''failed'' \<and>
   video_url \<lparr>status = ''failed'', progress = 0, created_at = 1000, prompt_text = ''My Cat'',
       video_url = None, completed_at = None,
       error = Some ''I/O operation on closed file.''\<rparr> = None \<and>
   prompt_text \<lparr>status = ''failed'', progress = 0, created_at = 1000, prompt_text = ''My Cat'',
       video_url = None, completed_at = None,
       error = Some ''I/O operation on closed file.''\<rparr> =
     prompt_text \<lparr>status = ''queued'', progress = 0, created_at = 1000, prompt_text = ''My Cat'',
       video_url = None, completed_at = None, error = None\<rparr> \<and>
   created_at \<lparr>status = ''failed'', progress = 0, created_at = 1000, prompt_text = ''My Cat'',
       video_url = None, completed_at = None,
       error = Some ''I/O operation on closed file.''\<rparr> =
     created_at \<lparr>status = ''queued'', progress = 0, created_at = 1000, prompt_text = ''My Cat'',
       video_url = None, completed_at = None, error = None\<rparr>"
proof -
  let ?failed = "\<lparr>status = ''failed'', progress = 0, created_at = 1000, prompt_text = ''My Cat'',
       video_url = None, completed_at = None,
       error = Some ''I/O operation on closed file.''\<rparr>"
  let ?queued = "\<lparr>status = ''queued'', progress = 0, created_at = 1000, prompt_text = ''My Cat'',
       video_url = None, completed_at = None, error = None\<rparr>"
  have f: "uuids_fresh no_keys (one_generation stdout_closed) init_world"
    by code_simp
  have l: "map (\<lambda>(g, x). (g, status x, prompt_text x, created_at x, video_url x))
     (writes (serve no_keys (one_generation stdout_closed) init_world)) =
     [(''id-1'', ''queued'', ''My Cat'', 1000, None),
      (''id-1'', ''processing'', ''My Cat'', 1000, None),
      (''id-1'', ''processing'', ''My Cat'', 1000, None),
      (''id-1'', ''processing'', ''My Cat'', 1000, None),
      (''id-1'', ''failed'', ''My Cat'', 1000, None)]"
    by code_simp
  have a: "(''id-1'', ?failed) \<in> set (writes (serve no_keys (one_generation stdout_closed) init_world))"
    by code_simp
  have b: "(''id-1'', ?queued) \<in> set (writes (serve no_keys (one_generation stdout_closed) init_world))"
    by code_simp
  have s: "status ?failed = ''failed''"
    by simp
  from prompt_and_created_at_fixed [OF f] a b s
  have "video_url ?failed = None \<and> prompt_text ?failed = prompt_text ?queued \<and>
      created_at ?failed = created_at ?queued"
    by blast
  with f l a b s show ?thesis
    by blast
qed

end
